theory Spec2Isabelle
  imports Main "HOL-Library.Char_ord" "HOL-Library.List_Lexorder"
begin

section \<open>Python values and string helpers\<close>

text \<open>
  A value that is either a Python \<open>str\<close> or \<open>None\<close> is a \<open>string option\<close>.
  \<open>truthy\<close> is Python's truth test on such a value (\<open>None\<close> and the empty string are
  false); \<open>py_str\<close> is how an f-string renders it.
\<close>

definition truthy :: "string option \<Rightarrow> bool" where
  "truthy v = (case v of None \<Rightarrow> False | Some s \<Rightarrow> s \<noteq> [])"

definition py_str :: "string option \<Rightarrow> string" where
  "py_str v = (case v of None \<Rightarrow> ''None'' | Some s \<Rightarrow> s)"

definition startswith :: "string \<Rightarrow> string \<Rightarrow> bool" where
  "startswith s p = (take (length p) s = p)"

text \<open>\<open>contains s p\<close> is Python's \<open>p in s\<close> on strings: \<open>p\<close> occurs in \<open>s\<close> as a
  contiguous run.\<close>

primrec contains :: "string \<Rightarrow> string \<Rightarrow> bool" where
  "contains [] p = (p = [])"
| "contains (c # cs) p = (startswith (c # cs) p \<or> contains cs p)"

definition has_dot :: "string \<Rightarrow> bool" where
  "has_dot s = (CHR ''.'' \<in> set s)"

text \<open>\<open>split_dot s\<close> is \<open>s.split(".")\<close>; \<open>split_dot1 s\<close> is \<open>s.split(".", 1)\<close> for a text
  that has a dot, as the pair of its two parts.\<close>

primrec split_dot :: "string \<Rightarrow> string list" where
  "split_dot [] = [[]]"
| "split_dot (c # cs) =
     (if c = CHR ''.'' then [] # split_dot cs
      else (c # hd (split_dot cs)) # tl (split_dot cs))"

definition split_dot1 :: "string \<Rightarrow> string \<times> string" where
  "split_dot1 s = (takeWhile (\<lambda>c. c \<noteq> CHR ''.'') s, drop 1 (dropWhile (\<lambda>c. c \<noteq> CHR ''.'') s))"

text \<open>A Python \<open>dict\<close> whose iteration order matters is an association list without
  duplicate keys: assigning to a present key replaces the value in place, assigning to
  a new key appends.\<close>

primrec dict_set :: "('k \<times> 'v) list \<Rightarrow> 'k \<Rightarrow> 'v \<Rightarrow> ('k \<times> 'v) list" where
  "dict_set [] k v = [(k, v)]"
| "dict_set (e # es) k v = (if fst e = k then (k, v) # es else e # dict_set es k v)"

definition dict_get :: "('k \<times> 'v) list \<Rightarrow> 'k \<Rightarrow> 'v option" where
  "dict_get d k = map_of d k"

section \<open>The syntax tree\<close>

text \<open>
  A node of the concrete syntax tree, with what the extractor reads of it: its type, the
  source text it spans (\<open>code_bytes[start_byte:end_byte]\<close> decoded), whether it is a named
  node, the field name under which its parent holds it, its start and end points
  (row, column) and its children in order. The parser that builds the tree is a library
  outside the repository.
\<close>

datatype node = Node (ntype: string) (ntext: string) (is_named: bool)
  (field: "string option") (start_point: "nat \<times> nat") (end_point: "nat \<times> nat")
  (children: "node list")

definition child_by_field_name :: "node \<Rightarrow> string \<Rightarrow> node option" where
  "child_by_field_name nd f = find (\<lambda>c. field c = Some f) (children nd)"

definition named_children :: "node \<Rightarrow> node list" where
  "named_children nd = filter is_named (children nd)"

definition get_node_text :: "node \<Rightarrow> string" where
  "get_node_text nd = ntext nd"

definition get_node_text_safe :: "node option \<Rightarrow> string option" where
  "get_node_text_safe nd = (case nd of Some n \<Rightarrow> Some (get_node_text n) | None \<Rightarrow> None)"

section \<open>The symbol extractor\<close>

record function_symbol =
  f_name :: "string option"
  f_lineno :: nat
  f_col_offset :: nat
  f_end_lineno :: nat
  f_end_col_offset :: nat
  f_code_snippet :: string
  f_is_static :: bool

record class_symbol =
  c_name :: "string option"
  c_lineno :: nat
  c_col_offset :: nat
  c_end_lineno :: nat
  c_end_col_offset :: nat
  c_code_snippet :: string
  c_bases :: "string list"
  c_attributes :: "string list"

record file_symbols =
  fs_functions :: "function_symbol list"
  fs_classes :: "class_symbol list"
  fs_imports :: "string option list"
  fs_calls :: "(string option \<times> string list) list"
  fs_aliases :: "(string option \<times> string option) list"

text \<open>The traversal state: the record under construction and the \<open>nonlocal\<close> slot
  \<open>current_class\<close>.\<close>

record extract_state = file_symbols +
  current_class :: "string option"

subsection \<open>find_calls\<close>

text \<open>The rewrite of one callee text (lines 39 to 41 of the parser module).\<close>

definition rewrite_callee :: "string option \<Rightarrow> string \<Rightarrow> string" where
  "rewrite_callee cc func_text =
     (if startswith func_text ''self.'' \<and> truthy cc
      then py_str cc @ ''.'' @ snd (split_dot1 func_text)
      else func_text)"

definition call_here :: "node \<Rightarrow> string option \<Rightarrow> string list" where
  "call_here nd cc =
     (if ntype nd = ''call'' then
        (case child_by_field_name nd ''function'' of
           Some func_node \<Rightarrow> [rewrite_callee cc (get_node_text func_node)]
         | None \<Rightarrow> [])
      else [])"

fun find_calls :: "node \<Rightarrow> string option \<Rightarrow> string list"
  and find_calls_children :: "node list \<Rightarrow> string option \<Rightarrow> string list" where
  "find_calls (Node t x n f s e cs) cc =
     call_here (Node t x n f s e cs) cc @ find_calls_children cs cc"
| "find_calls_children [] cc = []"
| "find_calls_children (c # cs) cc = find_calls c cc @ find_calls_children cs cc"

subsection \<open>traverse\<close>

text \<open>One child of an \<open>import_statement\<close> (lines 51 to 57).\<close>

definition import_child :: "node \<Rightarrow> extract_state \<Rightarrow> extract_state" where
  "import_child child st =
     (if ntype child = ''aliased_import'' then
        (let modname = get_node_text_safe (child_by_field_name child ''name'');
             alias = get_node_text_safe (child_by_field_name child ''alias'')
         in st\<lparr>fs_aliases := dict_set (fs_aliases st) alias modname,
                fs_imports := fs_imports st @ [modname]\<rparr>)
      else if ntype child = ''dotted_name'' then
        st\<lparr>fs_imports := fs_imports st @ [get_node_text_safe (Some child)]\<rparr>
      else st)"

definition import_from :: "node \<Rightarrow> extract_state \<Rightarrow> extract_state" where
  "import_from nd st =
     (case child_by_field_name nd ''module'' of
        None \<Rightarrow> st
      | Some module_node \<Rightarrow>
          (let modname = get_node_text_safe (Some module_node);
               st1 = st\<lparr>fs_imports := fs_imports st @ [modname]\<rparr>
           in (case child_by_field_name nd ''alias'' of
                 None \<Rightarrow> st1
               | Some alias_node \<Rightarrow>
                   st1\<lparr>fs_aliases := dict_set (fs_aliases st1) (get_node_text_safe (Some alias_node)) modname\<rparr>)))"

text \<open>The scan of the immediate named children of a class node (lines 75 to 86).\<close>

definition bases_of_child :: "node \<Rightarrow> string list" where
  "bases_of_child child =
     (if ntype child = ''argument_list''
      then map get_node_text
             (filter (\<lambda>arg. ntype arg = ''identifier'' \<or> ntype arg = ''dotted_name'')
                (named_children child))
      else [])"

definition attrs_of_child :: "node \<Rightarrow> string list" where
  "attrs_of_child child =
     (if ntype child = ''expression_statement'' \<and> children child \<noteq> [] then
        (let assignment = hd (children child) in
         if ntype assignment = ''assignment'' then
           (case child_by_field_name assignment ''left'' of
              Some left \<Rightarrow> [get_node_text left]
            | None \<Rightarrow> [])
         else [])
      else [])"

definition class_symbol_of :: "node \<Rightarrow> class_symbol" where
  "class_symbol_of nd =
     \<lparr>c_name = get_node_text_safe (child_by_field_name nd ''name''),
      c_lineno = fst (start_point nd) + 1,
      c_col_offset = snd (start_point nd),
      c_end_lineno = fst (end_point nd) + 1,
      c_end_col_offset = snd (end_point nd),
      c_code_snippet = get_node_text nd,
      c_bases = concat (map bases_of_child (named_children nd)),
      c_attributes = concat (map attrs_of_child (named_children nd))\<rparr>"

definition qualified_name :: "string option \<Rightarrow> string option \<Rightarrow> string option" where
  "qualified_name cc func_name =
     (if truthy cc then Some (py_str cc @ ''.'' @ py_str func_name) else func_name)"

definition is_static_of :: "node \<Rightarrow> bool" where
  "is_static_of nd =
     list_ex (\<lambda>dec. ntype dec = ''decorator'' \<and> contains (get_node_text dec) ''staticmethod'')
       (children nd)"

definition function_symbol_of :: "string option \<Rightarrow> node \<Rightarrow> function_symbol" where
  "function_symbol_of cc nd =
     \<lparr>f_name = qualified_name cc (get_node_text_safe (child_by_field_name nd ''name'')),
      f_lineno = fst (start_point nd) + 1,
      f_col_offset = snd (start_point nd),
      f_end_lineno = fst (end_point nd) + 1,
      f_end_col_offset = snd (end_point nd),
      f_code_snippet = get_node_text nd,
      f_is_static = is_static_of nd\<rparr>"

text \<open>What \<open>traverse\<close> does at a node before it descends (the \<open>if\<close>/\<open>elif\<close> chain of
  lines 49 to 124) and after its children are done (lines 129 and 130).\<close>

definition enter :: "node \<Rightarrow> extract_state \<Rightarrow> extract_state" where
  "enter nd st =
     (if ntype nd = ''import_statement'' then fold import_child (named_children nd) st
      else if ntype nd = ''import_from_statement'' then import_from nd st
      else if ntype nd = ''class_definition'' then
        st\<lparr>fs_classes := fs_classes st @ [class_symbol_of nd],
           current_class := c_name (class_symbol_of nd)\<rparr>
      else if ntype nd = ''function_definition'' then
        (let fs = function_symbol_of (current_class st) nd in
         st\<lparr>fs_functions := fs_functions st @ [fs],
            fs_calls := dict_set (fs_calls st) (f_name fs) (find_calls nd (current_class st))\<rparr>)
      else st)"

definition leave :: "node \<Rightarrow> extract_state \<Rightarrow> extract_state" where
  "leave nd st = (if ntype nd = ''class_definition'' then st\<lparr>current_class := None\<rparr> else st)"

fun traverse :: "node \<Rightarrow> extract_state \<Rightarrow> extract_state"
  and traverse_children :: "node list \<Rightarrow> extract_state \<Rightarrow> extract_state" where
  "traverse (Node t x n f s e cs) st =
     leave (Node t x n f s e cs) (traverse_children cs (enter (Node t x n f s e cs) st))"
| "traverse_children [] st = st"
| "traverse_children (c # cs) st = traverse_children cs (traverse c st)"

definition init_state :: extract_state where
  "init_state = \<lparr>fs_functions = [], fs_classes = [], fs_imports = [], fs_calls = [], fs_aliases = [],
                 current_class = None\<rparr>"

text \<open>
  \<open>extract_symbols_from_code\<close>: lines 14 to 16 (encoding the text and parsing it) are the
  parameter \<open>parse\<close>, which gives the root node or the message of the exception it raised;
  the rest builds a fresh record and slot and traverses the tree. The traversal itself
  has no raising branch; the interpreter's limit on the depth of recursion is not
  modelled.
\<close>

definition extract_symbols_from_code :: "(string \<Rightarrow> string + node) \<Rightarrow> string \<Rightarrow> string + file_symbols" where
  "extract_symbols_from_code parse code =
     (case parse code of
        Inl e \<Rightarrow> Inl e
      | Inr root_node \<Rightarrow> Inr (file_symbols.truncate (traverse root_node init_state)))"

section \<open>The pattern detector\<close>

record pattern_tag =
  p_pattern :: string
  p_class :: "string option"
  p_role :: string

definition is_singleton :: "class_symbol \<Rightarrow> bool" where
  "is_singleton cls =
     (contains (c_code_snippet cls) ''__new__'' \<and> contains (c_code_snippet cls) ''cls._instance'')"

definition detect_design_patterns :: "string \<Rightarrow> file_symbols \<Rightarrow> pattern_tag list" where
  "detect_design_patterns filepath code_symbols =
     concat (map (\<lambda>cls. if is_singleton cls
                         then [\<lparr>p_pattern = ''Singleton'', p_class = c_name cls, p_role = ''Singleton''\<rparr>]
                         else [])
               (fs_classes code_symbols))"

section \<open>The corpus indexer\<close>

type_synonym symtab = "string option \<rightharpoonup> string"

record index_result =
  code_graph_data :: "(string \<times> file_symbols) list"
  symbol_table :: symtab
  all_patterns :: "(string \<times> pattern_tag list) list"
  reported :: "string list"

text \<open>Lines 207 to 210: the entries one file adds to the symbol table, its functions
  first and then its classes.\<close>

definition add_symbols :: "string \<Rightarrow> file_symbols \<Rightarrow> symtab \<Rightarrow> symtab" where
  "add_symbols relative_filepath symbols tab =
     fold (\<lambda>cls t. t(c_name cls \<mapsto> relative_filepath @ ''::'' @ py_str (c_name cls)))
       (fs_classes symbols)
       (fold (\<lambda>func t. t(f_name func \<mapsto> relative_filepath @ ''::'' @ py_str (f_name func)))
          (fs_functions symbols) tab)"

text \<open>The body of the loop of lines 195 to 212 for one file: the \<open>try\<close> block, and the
  \<open>except\<close> branch that prints the failure and goes on. \<open>reported\<close> collects the lines
  printed by the \<open>except\<close> branch.\<close>

definition index_file :: "(string \<Rightarrow> string + node) \<Rightarrow> string \<times> string \<times> string
    \<Rightarrow> index_result \<Rightarrow> index_result" where
  "index_file parse file r =
     (case file of (relative_filepath, file_content, hexsha) \<Rightarrow>
        (case extract_symbols_from_code parse file_content of
           Inl e \<Rightarrow> r\<lparr>reported := reported r @ [''Error parsing '' @ relative_filepath @ '': '' @ e]\<rparr>
         | Inr symbols \<Rightarrow>
             r\<lparr>all_patterns := dict_set (all_patterns r) relative_filepath
                                  (detect_design_patterns relative_filepath symbols),
               code_graph_data := dict_set (code_graph_data r) relative_filepath symbols,
               symbol_table := add_symbols relative_filepath symbols (symbol_table r)\<rparr>))"

definition index_files :: "(string \<Rightarrow> string + node) \<Rightarrow> (string \<times> string \<times> string) list
    \<Rightarrow> index_result" where
  "index_files parse python_files =
     fold (index_file parse) python_files
       \<lparr>code_graph_data = [], symbol_table = Map.empty, all_patterns = [], reported = []\<rparr>"

text \<open>
  \<open>build_code_symbol_graph_data\<close>: the file list is what \<open>get_repo_structure_at_commit\<close>
  returns (the walk of the commit's tree through the git library, a parameter here), or
  the empty list when no commit hash is given.
\<close>

definition build_code_symbol_graph_data :: "(string \<Rightarrow> string + node)
    \<Rightarrow> (string \<Rightarrow> string \<Rightarrow> (string \<times> string \<times> string) list)
    \<Rightarrow> string \<Rightarrow> string option \<Rightarrow> index_result" where
  "build_code_symbol_graph_data parse get_repo_structure_at_commit repo_path commit_hash =
     (let python_files =
            (case commit_hash of
               None \<Rightarrow> []
             | Some h \<Rightarrow> if h \<noteq> [] then get_repo_structure_at_commit repo_path h else [])
      in index_files parse python_files)"

section \<open>The graph linker\<close>

text \<open>
  The graph store is outside the repository; the linker is modelled by the sequence of
  \<open>merge_node\<close> and \<open>merge_relationship\<close> calls it makes, in order, together with the
  exception that ended it, if one did. The calls made before an exception stay made.
\<close>

datatype pyval = PyStr string | PyInt nat | PyBool bool | PyNone

definition opt_val :: "string option \<Rightarrow> pyval" where
  "opt_val v = (case v of None \<Rightarrow> PyNone | Some s \<Rightarrow> PyStr s)"

datatype upsert =
  Merge_node string "(string \<times> pyval) list" string
| Merge_relationship string string pyval string string string pyval "(string \<times> pyval) list option"

datatype error = TypeError

type_synonym emitted = "upsert list \<times> error option"

definition and_then :: "emitted \<Rightarrow> emitted \<Rightarrow> emitted" where
  "and_then a b =
     (case a of
        (ops, Some e) \<Rightarrow> (ops, Some e)
      | (ops, None) \<Rightarrow> (ops @ fst b, snd b))"

primrec for_each :: "('a \<Rightarrow> emitted) \<Rightarrow> 'a list \<Rightarrow> emitted" where
  "for_each body [] = ([], None)"
| "for_each body (x # xs) = and_then (body x) (for_each body xs)"

definition basename :: "string \<Rightarrow> string" where
  "basename p = rev (takeWhile (\<lambda>c. c \<noteq> CHR ''/'') (rev p))"

definition function_ops :: "string \<Rightarrow> function_symbol \<Rightarrow> upsert list" where
  "function_ops filepath func =
     (let func_id = filepath @ ''::'' @ py_str (f_name func) in
      [Merge_node ''Function''
         [(''id'', PyStr func_id), (''name'', opt_val (f_name func)),
          (''lineno'', PyInt (f_lineno func)), (''end_lineno'', PyInt (f_end_lineno func)),
          (''file_path'', PyStr filepath), (''code_snippet'', PyStr (f_code_snippet func)),
          (''is_static'', PyBool (f_is_static func))] ''id'',
       Merge_relationship ''File'' ''path'' (PyStr filepath) ''CONTAINS_FUNCTION''
         ''Function'' ''id'' (PyStr func_id) None])"

definition attribute_ops :: "string \<Rightarrow> string \<Rightarrow> string \<Rightarrow> upsert list" where
  "attribute_ops filepath cls_id attr =
     (let attr_id = cls_id @ ''::'' @ attr in
      [Merge_node ''Attribute''
         [(''id'', PyStr attr_id), (''name'', PyStr attr), (''class_id'', PyStr cls_id),
          (''file_path'', PyStr filepath)] ''id'',
       Merge_relationship ''Class'' ''id'' (PyStr cls_id) ''HAS_ATTRIBUTE''
         ''Attribute'' ''id'' (PyStr attr_id) None])"

text \<open>Lines 177 to 183 for one function of the file. \<open>"." in func["name"]\<close> raises a
  \<open>TypeError\<close> on \<open>None\<close>, and so does \<open>cls["name"] + "."\<close>; \<open>split_dot fname ! 1\<close> is
  read only when the name has a dot, so the index is in range.\<close>

definition override_ops :: "symtab \<Rightarrow> string \<Rightarrow> class_symbol \<Rightarrow> string \<Rightarrow> function_symbol
    \<Rightarrow> emitted" where
  "override_ops symtable filepath cls base func =
     (case f_name func of
        None \<Rightarrow> ([], Some TypeError)
      | Some fname \<Rightarrow>
          if has_dot fname then
            (case c_name cls of
               None \<Rightarrow> ([], Some TypeError)
             | Some cname \<Rightarrow>
                 if startswith fname (cname @ ''.'') then
                   (let method_name = split_dot fname ! 1;
                        target_symbol = base @ ''.'' @ method_name;
                        overridden_id = symtable (Some target_symbol)
                    in if truthy overridden_id then
                         ([Merge_relationship ''Function'' ''id''
                             (PyStr (filepath @ ''::'' @ py_str (f_name func))) ''OVERRIDES''
                             ''Function'' ''id'' (opt_val overridden_id) None], None)
                       else ([], None))
                 else ([], None))
          else ([], None))"

definition base_ops :: "symtab \<Rightarrow> string \<Rightarrow> file_symbols \<Rightarrow> class_symbol \<Rightarrow> string \<Rightarrow> emitted" where
  "base_ops symtable filepath symbols cls base =
     (let cls_id = filepath @ ''::'' @ py_str (c_name cls);
          base_id = symtable (Some base)
      in if truthy base_id then
           and_then
             ([Merge_relationship ''Class'' ''id'' (PyStr cls_id) ''INHERITS''
                 ''Class'' ''id'' (opt_val base_id) None], None)
             (for_each (override_ops symtable filepath cls base) (fs_functions symbols))
         else ([], None))"

definition class_ops :: "symtab \<Rightarrow> string \<Rightarrow> file_symbols \<Rightarrow> class_symbol \<Rightarrow> emitted" where
  "class_ops symtable filepath symbols cls =
     (let cls_id = filepath @ ''::'' @ py_str (c_name cls) in
      and_then
        ([Merge_node ''Class''
            [(''id'', PyStr cls_id), (''name'', opt_val (c_name cls)),
             (''lineno'', PyInt (c_lineno cls)), (''end_lineno'', PyInt (c_end_lineno cls)),
             (''file_path'', PyStr filepath), (''code_snippet'', PyStr (c_code_snippet cls))] ''id'',
          Merge_relationship ''File'' ''path'' (PyStr filepath) ''CONTAINS_CLASS''
            ''Class'' ''id'' (PyStr cls_id) None]
         @ concat (map (attribute_ops filepath cls_id) (c_attributes cls)), None)
        (for_each (base_ops symtable filepath symbols cls) (c_bases cls)))"

definition import_ops :: "string \<Rightarrow> string option \<Rightarrow> upsert list" where
  "import_ops filepath pkg =
     [Merge_node ''Package'' [(''name'', opt_val pkg)] ''name'',
      Merge_relationship ''File'' ''path'' (PyStr filepath) ''IMPORTS''
        ''Package'' ''name'' (opt_val pkg) None]"

text \<open>Lines 192 to 202 for one raw callee text of one caller.\<close>

definition call_ops :: "symtab \<Rightarrow> (string option \<times> string option) list \<Rightarrow> string \<Rightarrow> string
    \<Rightarrow> upsert list" where
  "call_ops symtable file_aliases caller_id callee =
     (let callee_id0 = symtable (Some callee);
          callee_id =
            (if \<not> truthy callee_id0 \<and> has_dot callee then
               (case split_dot1 callee of (base, member) \<Rightarrow>
                  (let alias = (case dict_get file_aliases (Some base) of
                                  Some a \<Rightarrow> a | None \<Rightarrow> Some base);
                       full_name = py_str alias @ ''.'' @ member
                   in symtable (Some full_name)))
             else callee_id0)
      in if truthy callee_id then
           [Merge_relationship ''Function'' ''id'' (PyStr caller_id) ''CALLS''
              ''Function'' ''id'' (opt_val callee_id) None]
         else [])"

definition caller_ops :: "symtab \<Rightarrow> string \<Rightarrow> file_symbols \<Rightarrow> string option \<times> string list
    \<Rightarrow> upsert list" where
  "caller_ops symtable filepath symbols entry =
     (case entry of (caller, callees) \<Rightarrow>
        concat (map (call_ops symtable (fs_aliases symbols) (filepath @ ''::'' @ py_str caller))
                  callees))"

definition file_ops :: "symtab \<Rightarrow> string \<times> file_symbols \<Rightarrow> emitted" where
  "file_ops symtable entry =
     (case entry of (filepath, symbols) \<Rightarrow>
        and_then
          ([Merge_node ''File'' [(''path'', PyStr filepath), (''name'', PyStr (basename filepath))] ''path'']
           @ concat (map (function_ops filepath) (fs_functions symbols)), None)
          (and_then
             (for_each (class_ops symtable filepath symbols) (fs_classes symbols))
             (concat (map (import_ops filepath) (fs_imports symbols))
              @ concat (map (caller_ops symtable filepath symbols) (fs_calls symbols)), None)))"

definition populate_graph_from_code_data :: "(string \<times> file_symbols) list \<Rightarrow> symtab \<Rightarrow> emitted" where
  "populate_graph_from_code_data graph_data symtable = for_each (file_ops symtable) graph_data"

section \<open>Reference definitions\<close>


text \<open>
  The function definitions of a tree in the order of the depth-first walk, each with
  the content of the enclosing-class slot when the walk reaches it, and the content of
  the slot after the walk. There is one slot, not a stack: entering a class definition
  puts the name of the class in it, leaving a class definition clears it.
\<close>

definition def_name :: "node \<Rightarrow> string option" where
  "def_name nd = get_node_text_safe (child_by_field_name nd ''name'')"

fun visited_defs :: "node \<Rightarrow> string option \<Rightarrow> (node \<times> string option) list \<times> string option"
  and visited_defs_children :: "node list \<Rightarrow> string option \<Rightarrow> (node \<times> string option) list \<times> string option" where
  "visited_defs (Node t x n f s e cs) slot =
     (let here = (if t = ''function_definition'' then [(Node t x n f s e cs, slot)] else []);
          below = visited_defs_children cs
                    (if t = ''class_definition'' then def_name (Node t x n f s e cs) else slot)
      in (here @ fst below, if t = ''class_definition'' then None else snd below))"
| "visited_defs_children [] slot = ([], slot)"
| "visited_defs_children (c # cs) slot =
     (let first = visited_defs c slot; rest = visited_defs_children cs (snd first)
      in (fst first @ fst rest, snd rest))"

text \<open>The entry a visited definition writes into the calls mapping, and the writing
  of it; the qualified name as the slot gives it; the qualified names by the lexically
  enclosing class, handed down the tree and never cleared; trees in which no class
  definition lies inside another.\<close>

definition add_call :: "node \<times> string option \<Rightarrow> (string option \<times> string list) list
    \<Rightarrow> (string option \<times> string list) list" where
  "add_call v d = dict_set d (qualified_name (snd v) (def_name (fst v))) (find_calls (fst v) (snd v))"

definition call_entry :: "node \<times> string option \<Rightarrow> string option \<times> string list" where
  "call_entry v = (qualified_name (snd v) (def_name (fst v)), find_calls (fst v) (snd v))"

definition slot_name :: "node \<times> string option \<Rightarrow> string option" where
  "slot_name v =
     (case snd v of
        Some cls \<Rightarrow> if cls \<noteq> [] then Some (cls @ ''.'' @ py_str (def_name (fst v)))
                    else def_name (fst v)
      | None \<Rightarrow> def_name (fst v))"

fun lexical_names :: "node \<Rightarrow> string option \<Rightarrow> string option list"
  and lexical_names_children :: "node list \<Rightarrow> string option \<Rightarrow> string option list" where
  "lexical_names (Node t x n f s e cs) enclosing =
     (if t = ''function_definition'' then [slot_name (Node t x n f s e cs, enclosing)] else [])
     @ lexical_names_children cs
         (if t = ''class_definition'' then def_name (Node t x n f s e cs) else enclosing)"
| "lexical_names_children [] enclosing = []"
| "lexical_names_children (c # cs) enclosing =
     lexical_names c enclosing @ lexical_names_children cs enclosing"

fun class_free :: "node \<Rightarrow> bool" and class_free_children :: "node list \<Rightarrow> bool" where
  "class_free (Node t x n f s e cs) = (t \<noteq> ''class_definition'' \<and> class_free_children cs)"
| "class_free_children [] = True"
| "class_free_children (c # cs) = (class_free c \<and> class_free_children cs)"

fun flat_classes :: "node \<Rightarrow> bool" and flat_classes_children :: "node list \<Rightarrow> bool" where
  "flat_classes (Node t x n f s e cs) =
     (if t = ''class_definition'' then class_free_children cs else flat_classes_children cs)"
| "flat_classes_children [] = True"
| "flat_classes_children (c # cs) = (flat_classes c \<and> flat_classes_children cs)"

text \<open>The log of a walk: qualified name and call list of each function definition, in
  the order of the visits.\<close>

definition call_log :: "node \<Rightarrow> (string option \<times> string list) list" where
  "call_log root = map call_entry (fst (visited_defs root None))"

subsection \<open>Example inputs\<close>

text \<open>
  Syntax trees as the parser builds them for small sources: a class body and a function
  body are a \<open>block\<close> node in the \<open>body\<close> field, the callee of a call is in the field
  \<open>function\<close>, the bases of a class are in an \<open>argument_list\<close>. Only the nodes of class
  and function definitions carry their positions here; the extractor reads no other.
  \<open>table_parser\<close> is a parser given by a table from source texts to trees, raising on
  any other text.
\<close>

definition token :: "string \<Rightarrow> node" where
  "token x = Node x x False None (0, 0) (0, 0) []"

definition leaf :: "string \<Rightarrow> string option \<Rightarrow> string \<Rightarrow> node" where
  "leaf t fld x = Node t x True fld (0, 0) (0, 0) []"

definition inner :: "string \<Rightarrow> string option \<Rightarrow> string \<Rightarrow> node list \<Rightarrow> node" where
  "inner t fld x cs = Node t x True fld (0, 0) (0, 0) cs"

definition call_stmt :: "node \<Rightarrow> string \<Rightarrow> node" where
  "call_stmt callee x =
     inner ''expression_statement'' None x
       [inner ''call'' None x
          [callee, inner ''argument_list'' (Some ''arguments'') ''()'' [token ''('', token '')'']]]"

definition self_attr :: "string \<Rightarrow> node" where
  "self_attr member =
     inner ''attribute'' (Some ''function'') (''self.'' @ member)
       [leaf ''identifier'' (Some ''object'') ''self'', token ''.'',
        leaf ''identifier'' (Some ''attribute'') member]"

definition def_node :: "string \<Rightarrow> string \<Rightarrow> nat \<times> nat \<Rightarrow> nat \<times> nat \<Rightarrow> node list \<Rightarrow> node" where
  "def_node name x start stop body =
     Node ''function_definition'' x True None start stop
       [token ''def'', leaf ''identifier'' (Some ''name'') name,
        inner ''parameters'' (Some ''parameters'') ''()'' [token ''('', token '')''],
        token '':'', inner ''block'' (Some ''body'') (drop (length name + 8) x) body]"

definition dog_module :: node where
  "dog_module =
     inner ''module'' None (''class Dog(Animal):'' @ [CHR 0x0A] @ ''    def speak(): self.bark()'' @ [CHR 0x0A] @ ''def run(): Dog()'')
       [Node ''class_definition'' (''class Dog(Animal):'' @ [CHR 0x0A] @ ''    def speak(): self.bark()'')
          True None (0, 0) (1, 28)
          [token ''class'', leaf ''identifier'' (Some ''name'') ''Dog'',
           inner ''argument_list'' (Some ''superclasses'') ''(Animal)''
             [token ''('', leaf ''identifier'' None ''Animal'', token '')''],
           token '':'',
           inner ''block'' (Some ''body'') ''def speak(): self.bark()''
             [def_node ''speak'' ''def speak(): self.bark()'' (1, 4) (1, 28)
                [call_stmt (self_attr ''bark'') ''self.bark()'']]],
        def_node ''run'' ''def run(): Dog()'' (2, 0) (2, 16)
          [call_stmt (leaf ''identifier'' (Some ''function'') ''Dog'') ''Dog()'']]"

definition rerun_module :: node where
  "rerun_module =
     inner ''module'' None (''def run(): a()'' @ [CHR 0x0A] @ ''def run(): b()'')
       [def_node ''run'' ''def run(): a()'' (0, 0) (0, 14)
          [call_stmt (leaf ''identifier'' (Some ''function'') ''a'') ''a()''],
        def_node ''run'' ''def run(): b()'' (1, 0) (1, 14)
          [call_stmt (leaf ''identifier'' (Some ''function'') ''b'') ''b()'']]"

definition table_parser :: "(string \<times> node) list \<Rightarrow> string \<Rightarrow> string + node" where
  "table_parser table code =
     (case map_of table code of Some root \<Rightarrow> Inr root | None \<Rightarrow> Inl ''parse failed'')"

subsection \<open>The indexer\<close>

text \<open>
  The files whose extraction returned, each with its record, in the order of the file
  list; the names a record contributes to the symbol table; and the symbol table as
  the design describes it, built in one pass over the extraction results ordered by
  file path.
\<close>

definition extracted :: "(string \<Rightarrow> string + node) \<Rightarrow> (string \<times> string \<times> string) list
    \<Rightarrow> (string \<times> file_symbols) list" where
  "extracted parse python_files =
     concat (map (\<lambda>(path, file_content, hexsha).
                    case extract_symbols_from_code parse file_content of
                      Inl e \<Rightarrow> []
                    | Inr symbols \<Rightarrow> [(path, symbols)])
               python_files)"

definition symbol_names :: "file_symbols \<Rightarrow> string option set" where
  "symbol_names symbols = f_name ` set (fs_functions symbols) \<union> c_name ` set (fs_classes symbols)"

definition sorted_pass_table :: "(string \<Rightarrow> string + node) \<Rightarrow> (string \<times> string \<times> string) list
    \<Rightarrow> symtab" where
  "sorted_pass_table parse python_files =
     fold (\<lambda>(path, symbols). add_symbols path symbols)
       (sort_key fst (extracted parse python_files)) Map.empty"

subsection \<open>Example corpora\<close>

definition run_module :: node where
  "run_module =
     inner ''module'' None ''def run(): a()''
       [def_node ''run'' ''def run(): a()'' (0, 0) (0, 14)
          [call_stmt (leaf ''identifier'' (Some ''function'') ''a'') ''a()'']]"

definition run_parser :: "string \<Rightarrow> string + node" where
  "run_parser = table_parser [(''def run(): a()'', run_module)]"

definition three_files :: "(string \<times> string \<times> string) list" where
  "three_files =
     [(''a.py'', ''def run(): a()'', ''0a''),
      (''bad.py'', ''def run(:'', ''0b''),
      (''c.py'', ''def run(): a()'', ''0c'')]"

definition unsorted_files :: "(string \<times> string \<times> string) list" where
  "unsorted_files =
     [(''b.py'', ''def run(): a()'', ''0b''),
      (''a.py'', ''def run(): a()'', ''0a'')]"

definition zoo_symbols :: file_symbols where
  "zoo_symbols =
     \<lparr>fs_functions =
        [\<lparr>f_name = Some ''Animal.speak'', f_lineno = 2, f_col_offset = 4, f_end_lineno = 2,
          f_end_col_offset = 24, f_code_snippet = ''def speak(self): pass'', f_is_static = False\<rparr>,
         \<lparr>f_name = Some ''Dog.speak'', f_lineno = 4, f_col_offset = 4, f_end_lineno = 4,
          f_end_col_offset = 31, f_code_snippet = ''def speak(self): self.bark()'', f_is_static = False\<rparr>],
      fs_classes =
        [\<lparr>c_name = Some ''Animal'', c_lineno = 1, c_col_offset = 0, c_end_lineno = 2,
          c_end_col_offset = 24,
          c_code_snippet = ''class Animal:'' @ [CHR 0x0A] @ ''    def speak(self): pass'',
          c_bases = [], c_attributes = []\<rparr>,
         \<lparr>c_name = Some ''Dog'', c_lineno = 3, c_col_offset = 0, c_end_lineno = 4,
          c_end_col_offset = 31,
          c_code_snippet = ''class Dog(Animal):'' @ [CHR 0x0A] @ ''    def speak(self): self.bark()'',
          c_bases = [''Animal''], c_attributes = []\<rparr>],
      fs_imports = [],
      fs_calls = [(Some ''Animal.speak'', []), (Some ''Dog.speak'', [''Dog.bark''])],
      fs_aliases = []\<rparr>"

definition zoo_table :: symtab where
  "zoo_table =
     [Some ''Animal.speak'' \<mapsto> ''zoo.py::Animal.speak'', Some ''Dog.speak'' \<mapsto> ''zoo.py::Dog.speak'',
      Some ''Animal'' \<mapsto> ''zoo.py::Animal'', Some ''Dog'' \<mapsto> ''zoo.py::Dog'']"

subsection \<open>Class bodies\<close>

text \<open>
  The targets of the assignment statements at the top level of a class body, read where
  the grammar of the parser puts them: in the block that the class node holds in its
  \<open>body\<close> field.
\<close>

definition body_assignment_targets :: "node \<Rightarrow> string list" where
  "body_assignment_targets class_node =
     (case child_by_field_name class_node ''body'' of
        None \<Rightarrow> []
      | Some block \<Rightarrow> concat (map attrs_of_child (named_children block)))"

text \<open>The tree of the two lines \<open>class Dog:\<close> and \<open>sound = 1\<close> (indented).\<close>

definition sound_class :: node where
  "sound_class =
     Node ''class_definition'' (''class Dog:'' @ [CHR 0x0A] @ ''    sound = 1'') True None (0, 0) (1, 13)
       [token ''class'', leaf ''identifier'' (Some ''name'') ''Dog'', token '':'',
        inner ''block'' (Some ''body'') ''sound = 1''
          [inner ''expression_statement'' None ''sound = 1''
             [inner ''assignment'' None ''sound = 1''
                [leaf ''identifier'' (Some ''left'') ''sound'', token ''='',
                 leaf ''integer'' (Some ''right'') ''1'']]]]"

definition sound_module :: node where
  "sound_module = inner ''module'' None (''class Dog:'' @ [CHR 0x0A] @ ''    sound = 1'') [sound_class]"

definition sound_parser :: "string \<Rightarrow> string + node" where
  "sound_parser = table_parser [(''class Dog:'' @ [CHR 0x0A] @ ''    sound = 1'', sound_module)]"

definition pattern_symbols :: file_symbols where
  "pattern_symbols =
     \<lparr>fs_functions = [],
      fs_classes =
        [\<lparr>c_name = Some ''Config'', c_lineno = 1, c_col_offset = 0, c_end_lineno = 2,
          c_end_col_offset = 44,
          c_code_snippet = ''class Config:'' @ [CHR 0x0A] @ ''    def __new__(cls): return cls._instance'',
          c_bases = [], c_attributes = []\<rparr>,
         \<lparr>c_name = Some ''Plain'', c_lineno = 3, c_col_offset = 0, c_end_lineno = 4,
          c_end_col_offset = 41,
          c_code_snippet = ''class Plain:'' @ [CHR 0x0A] @ ''    def __new__(cls): return object()'',
          c_bases = [], c_attributes = []\<rparr>],
      fs_imports = [], fs_calls = [], fs_aliases = []\<rparr>"

text \<open>The tree of a class \<open>A\<close> whose body holds a class \<open>B\<close> and then a function \<open>f\<close>.\<close>

definition nested_module :: node where
  "nested_module =
     inner ''module'' None
       (''class A:'' @ [CHR 0x0A] @ ''    class B: pass'' @ [CHR 0x0A] @ ''    def f(): g()'')
       [Node ''class_definition''
          (''class A:'' @ [CHR 0x0A] @ ''    class B: pass'' @ [CHR 0x0A] @ ''    def f(): g()'')
          True None (0, 0) (2, 16)
          [token ''class'', leaf ''identifier'' (Some ''name'') ''A'', token '':'',
           inner ''block'' (Some ''body'') (''class B: pass'' @ [CHR 0x0A] @ ''    def f(): g()'')
             [Node ''class_definition'' ''class B: pass'' True None (1, 4) (1, 17)
                [token ''class'', leaf ''identifier'' (Some ''name'') ''B'', token '':'',
                 inner ''block'' (Some ''body'') ''pass'' [inner ''pass_statement'' None ''pass'' [token ''pass'']]],
              def_node ''f'' ''def f(): g()'' (2, 4) (2, 16)
                [call_stmt (leaf ''identifier'' (Some ''function'') ''g'') ''g()'']]]]"

section \<open>Properties\<close>

lemmas fixture_defs = token_def leaf_def inner_def call_stmt_def self_attr_def def_node_def

subsection \<open>Strings\<close>

lemma startswith_iff: "startswith s p \<longleftrightarrow> (\<exists>suf. s = p @ suf)"
  unfolding startswith_def
  by (metis append_eq_conv_conj append_take_drop_id)

lemma contains_iff: "contains s p \<longleftrightarrow> (\<exists>pre suf. s = pre @ p @ suf)"
proof (induction s)
  case Nil
  then show ?case by simp
next
  case (Cons c cs)
  show ?case
  proof
    assume "contains (c # cs) p"
    then consider "startswith (c # cs) p" | "contains cs p" by auto
    then show "\<exists>pre suf. c # cs = pre @ p @ suf"
    proof cases
      case 1
      then obtain suf where "c # cs = p @ suf" using startswith_iff by blast
      then have "c # cs = [] @ p @ suf" by simp
      then show ?thesis by blast
    next
      case 2
      then obtain pre suf where "cs = pre @ p @ suf" using Cons.IH by blast
      then have "c # cs = (c # pre) @ p @ suf" by simp
      then show ?thesis by blast
    qed
  next
    assume "\<exists>pre suf. c # cs = pre @ p @ suf"
    then obtain pre suf where e: "c # cs = pre @ p @ suf" by blast
    show "contains (c # cs) p"
    proof (cases pre)
      case Nil
      with e have "startswith (c # cs) p" using startswith_iff by auto
      then show ?thesis by simp
    next
      case (Cons a pre')
      with e have "cs = pre' @ p @ suf" by simp
      then have "contains cs p" using Cons.IH by blast
      then show ?thesis by simp
    qed
  qed
qed

lemma split_dot1_join:
  "CHR ''.'' \<notin> set base \<Longrightarrow> split_dot1 (base @ CHR ''.'' # member) = (base, member)"
  unfolding split_dot1_def by (induction base) auto


lemma split_dot_nodot: "CHR ''.'' \<notin> set s \<Longrightarrow> split_dot s = [s]"
  by (induction s) auto

lemma split_dot_append:
  "CHR ''.'' \<notin> set a \<Longrightarrow> split_dot (a @ CHR ''.'' # b) = a # split_dot b"
  by (induction a) auto

lemma split_dot_method:
  "CHR ''.'' \<notin> set c \<Longrightarrow> CHR ''.'' \<notin> set m \<Longrightarrow> split_dot (c @ CHR ''.'' # m) ! 1 = m"
  by (simp add: split_dot_append split_dot_nodot)

lemma concat_map_if:
  "concat (map (\<lambda>x. if P x then [f x] else []) xs) = map f (filter P xs)"
  by (induction xs) auto

subsection \<open>The pattern detector\<close>

text \<open>
  C9. The pattern detector returns one tag per class whose verbatim text contains both
  \<open>__new__\<close> and \<open>cls._instance\<close> as contiguous runs of characters anywhere in it, in the
  order of the classes; the tag carries the pattern \<open>Singleton\<close>, the name of the class
  and the role \<open>Singleton\<close>. A class whose text lacks either marker gets no tag, and
  nothing else is ever tagged.
\<close>

theorem detect_design_patterns_singleton:
  "detect_design_patterns filepath symbols =
     map (\<lambda>cls. \<lparr>p_pattern = ''Singleton'', p_class = c_name cls, p_role = ''Singleton''\<rparr>)
       (filter (\<lambda>cls. (\<exists>a b. c_code_snippet cls = a @ ''__new__'' @ b)
                    \<and> (\<exists>a b. c_code_snippet cls = a @ ''cls._instance'' @ b))
          (fs_classes symbols))"
  unfolding detect_design_patterns_def is_singleton_def contains_iff concat_map_if ..

theorem detect_design_patterns_singleton_witness:
  "detect_design_patterns ''config.py'' pattern_symbols =
     [\<lparr>p_pattern = ''Singleton'', p_class = Some ''Config'', p_role = ''Singleton''\<rparr>]"
  using detect_design_patterns_singleton [of "''config.py''" pattern_symbols]
  unfolding contains_iff [symmetric]
  by (simp add: pattern_symbols_def startswith_def)

subsection \<open>Calls inside a function body\<close>

lemma startswith_self: "startswith t ''self.'' \<longleftrightarrow> (\<exists>member. t = ''self.'' @ member)"
  by (rule startswith_iff)

lemma split_dot1_self: "split_dot1 (''self.'' @ member) = (''self'', member)"
  unfolding split_dot1_def by simp

lemma rewrite_callee_eq:
  "rewrite_callee cc t =
     (case cc of
        Some cls \<Rightarrow> if cls \<noteq> [] \<and> (\<exists>member. t = ''self.'' @ member)
                    then cls @ ''.'' @ drop 5 t else t
      | None \<Rightarrow> t)"
proof (cases "startswith t ''self.''")
  case True
  then obtain member where t: "t = ''self.'' @ member" using startswith_self by blast
  have "snd (split_dot1 t) = drop 5 t" unfolding t split_dot1_self by simp
  with True show ?thesis
    unfolding rewrite_callee_def truthy_def py_str_def startswith_self
    by (auto split: option.splits)
next
  case False
  then show ?thesis
    unfolding rewrite_callee_def startswith_self by (auto split: option.splits)
qed

lemma rewrite_callee_None: "rewrite_callee None t = t"
  by (simp add: rewrite_callee_def truthy_def)

lemma call_here_map: "call_here nd cc = map (rewrite_callee cc) (call_here nd None)"
  by (simp add: call_here_def rewrite_callee_None split: option.splits)

lemma find_calls_map:
  "find_calls nd cc = map (rewrite_callee cc) (find_calls nd None)"
  "find_calls_children cs cc = map (rewrite_callee cc) (find_calls_children cs None)"
proof (induction nd cc and cs cc rule: find_calls_find_calls_children.induct)
  case (1 t x n f s e cs cc)
  then show ?case using call_here_map [of "Node t x n f s e cs" cc] by simp
qed simp_all

text \<open>
  C4. The texts \<open>find_calls\<close> records under a node for a given enclosing class are the
  callee texts of the call expressions below it (what is recorded when no class is
  given), each rewritten on its own: when a non-empty class name is given and the text
  begins with \<open>self.\<close>, the text recorded is the class name, a dot and the text after
  \<open>self.\<close>; every other text is recorded as it is written.
\<close>

theorem find_calls_self_rewrite:
  "find_calls nd cc =
     map (\<lambda>text. case cc of
                   Some cls \<Rightarrow> if cls \<noteq> [] \<and> (\<exists>member. text = ''self.'' @ member)
                               then cls @ ''.'' @ drop 5 text else text
                 | None \<Rightarrow> text)
       (find_calls nd None)"
  using find_calls_map(1) [of nd cc] unfolding rewrite_callee_eq .

theorem find_calls_self_rewrite_witness:
  "find_calls dog_module None = [''self.bark'', ''Dog'']
   \<and> find_calls dog_module (Some ''Dog'') = [''Dog.bark'', ''Dog'']"
proof -
  have n: "find_calls dog_module None = [''self.bark'', ''Dog'']"
    by (simp add: dog_module_def fixture_defs call_here_def child_by_field_name_def
        get_node_text_def rewrite_callee_None)
  show ?thesis
    using n find_calls_self_rewrite [of dog_module "Some ''Dog''"] unfolding n by simp
qed

subsection \<open>Call resolution in the linker\<close>




lemma fold_import_child_fields:
  "fs_functions (fold import_child cs st) = fs_functions st"
  "fs_calls (fold import_child cs st) = fs_calls st"
  "current_class (fold import_child cs st) = current_class st"
  by (induction cs arbitrary: st) (simp_all add: import_child_def Let_def)

lemma import_from_fields:
  "fs_functions (import_from nd st) = fs_functions st"
  "fs_calls (import_from nd st) = fs_calls st"
  "current_class (import_from nd st) = current_class st"
  by (simp_all add: import_from_def Let_def split: option.splits)

lemma enter_functions:
  "fs_functions (enter nd st) =
     fs_functions st @ (if ntype nd = ''function_definition''
                        then [function_symbol_of (current_class st) nd] else [])"
  by (simp add: enter_def Let_def fold_import_child_fields import_from_fields)

lemma enter_calls:
  "fs_calls (enter nd st) =
     (if ntype nd = ''function_definition''
      then dict_set (fs_calls st) (qualified_name (current_class st) (def_name nd))
             (find_calls nd (current_class st))
      else fs_calls st)"
  by (simp add: enter_def Let_def fold_import_child_fields import_from_fields
      function_symbol_of_def def_name_def)

lemma enter_current_class:
  "current_class (enter nd st) =
     (if ntype nd = ''class_definition'' then def_name nd else current_class st)"
  by (simp add: enter_def Let_def fold_import_child_fields import_from_fields
      class_symbol_of_def def_name_def)

lemma leave_fields:
  "fs_functions (leave nd st) = fs_functions st"
  "fs_calls (leave nd st) = fs_calls st"
  "current_class (leave nd st) = (if ntype nd = ''class_definition'' then None else current_class st)"
  by (simp_all add: leave_def)

lemma traverse_visited:
  "current_class (traverse nd st) = snd (visited_defs nd (current_class st))
   \<and> fs_functions (traverse nd st) =
       fs_functions st @ map (\<lambda>(n, slot). function_symbol_of slot n) (fst (visited_defs nd (current_class st)))
   \<and> fs_calls (traverse nd st) = fold add_call (fst (visited_defs nd (current_class st))) (fs_calls st)"
  "current_class (traverse_children cs st) = snd (visited_defs_children cs (current_class st))
   \<and> fs_functions (traverse_children cs st) =
       fs_functions st @ map (\<lambda>(n, slot). function_symbol_of slot n) (fst (visited_defs_children cs (current_class st)))
   \<and> fs_calls (traverse_children cs st) = fold add_call (fst (visited_defs_children cs (current_class st))) (fs_calls st)"
proof (induction nd st and cs st rule: traverse_traverse_children.induct)
  case (1 t x n f s e cs st)
  then show ?case
    by (simp add: leave_fields enter_functions enter_calls enter_current_class Let_def add_call_def)
next
  case (2 st)
  then show ?case by simp
next
  case (3 c cs st)
  then show ?case by (simp add: Let_def)
qed

lemma dict_set_keys: "fst ` set (dict_set d k v) = insert k (fst ` set d)"
  by (induction d) auto

lemma dict_set_distinct: "distinct (map fst d) \<Longrightarrow> distinct (map fst (dict_set d k v))"
proof (induction d)
  case Nil
  then show ?case by simp
next
  case (Cons e es)
  show ?case
  proof (cases "fst e = k")
    case True
    with Cons.prems show ?thesis by simp
  next
    case False
    have "fst e \<notin> fst ` set (dict_set es k v)"
      using False Cons.prems unfolding dict_set_keys by simp
    with False Cons show ?thesis by simp
  qed
qed

lemma map_of_dict_set: "map_of (dict_set d k v) = (map_of d)(k \<mapsto> v)"
  by (induction d) (auto simp: fun_upd_twist)

lemma dict_set_new: "k \<notin> fst ` set d \<Longrightarrow> dict_set d k v = d @ [(k, v)]"
  by (induction d) auto

lemma add_call_entry: "add_call v d = dict_set d (fst (call_entry v)) (snd (call_entry v))"
  by (simp add: add_call_def call_entry_def)

lemma fold_add_call_keys:
  "fst ` set (fold add_call vs d) = fst ` set d \<union> fst ` set (map call_entry vs)"
proof (induction vs arbitrary: d)
  case Nil
  then show ?case by simp
next
  case (Cons v vs)
  have "fst ` set (fold add_call (v # vs) d) = fst ` set (add_call v d) \<union> fst ` set (map call_entry vs)"
    using Cons.IH [of "add_call v d"] by simp
  also have "fst ` set (add_call v d) = insert (fst (call_entry v)) (fst ` set d)"
    unfolding add_call_entry dict_set_keys ..
  finally show ?case by auto
qed

lemma fold_add_call_distinct:
  "distinct (map fst d) \<Longrightarrow> distinct (map fst (fold add_call vs d))"
proof (induction vs arbitrary: d)
  case Nil
  then show ?case by simp
next
  case (Cons v vs)
  have "distinct (map fst (add_call v d))"
    unfolding add_call_entry using Cons.prems by (rule dict_set_distinct)
  then show ?case using Cons.IH by simp
qed

lemma fold_add_call_map_of:
  "map_of (fold add_call vs d) = map_of d ++ map_of (rev (map call_entry vs))"
proof (induction vs arbitrary: d)
  case Nil
  then show ?case by simp
next
  case (Cons v vs)
  have "map_of (fold add_call (v # vs) d) = map_of (add_call v d) ++ map_of (rev (map call_entry vs))"
    using Cons.IH [of "add_call v d"] by simp
  also have "map_of (add_call v d) = map_of d ++ [fst (call_entry v) \<mapsto> snd (call_entry v)]"
    unfolding add_call_entry map_of_dict_set by simp
  also have "map_of d ++ [fst (call_entry v) \<mapsto> snd (call_entry v)] ++ map_of (rev (map call_entry vs))
      = map_of d ++ map_of (rev (map call_entry (v # vs)))"
    by (rule ext) (simp add: map_add_def split: option.splits)
  finally show ?case .
qed

lemma map_of_first:
  "map_of xs q = (case filter (\<lambda>e. fst e = q) xs of [] \<Rightarrow> None | e # _ \<Rightarrow> Some (snd e))"
  by (induction xs) auto

lemma map_of_rev_last:
  "map_of (rev xs) q = (case filter (\<lambda>e. fst e = q) xs of [] \<Rightarrow> None | e # es \<Rightarrow> Some (snd (last (e # es))))"
proof -
  have "map_of (rev xs) q = (case rev (filter (\<lambda>e. fst e = q) xs) of [] \<Rightarrow> None | e # _ \<Rightarrow> Some (snd e))"
    by (simp add: map_of_first rev_filter)
  also have "\<dots> = (case filter (\<lambda>e. fst e = q) xs of [] \<Rightarrow> None | e # es \<Rightarrow> Some (snd (last (e # es))))"
  proof (cases "filter (\<lambda>e. fst e = q) xs" rule: rev_cases)
    case Nil
    then show ?thesis by simp
  next
    case (snoc ys y)
    then show ?thesis by (cases ys) simp_all
  qed
  finally show ?thesis .
qed

lemma qualified_name_slot: "qualified_name slot (def_name nd) = slot_name (nd, slot)"
  by (simp add: qualified_name_def slot_name_def truthy_def py_str_def split: option.splits)

lemma f_name_function_symbol_of: "f_name (function_symbol_of slot nd) = slot_name (nd, slot)"
  by (simp add: function_symbol_of_def qualified_name_slot [symmetric] def_name_def)

lemma class_free_visited:
  "class_free nd \<Longrightarrow> snd (visited_defs nd slot) = slot
     \<and> map slot_name (fst (visited_defs nd slot)) = lexical_names nd slot"
  "class_free_children cs \<Longrightarrow> snd (visited_defs_children cs slot) = slot
     \<and> map slot_name (fst (visited_defs_children cs slot)) = lexical_names_children cs slot"
proof (induction nd slot and cs slot rule: visited_defs_visited_defs_children.induct)
  case (1 t x n f s e cs slot)
  then show ?case by (simp add: Let_def)
next
  case (2 slot)
  then show ?case by simp
next
  case (3 c cs slot)
  then show ?case by (simp add: Let_def)
qed

lemma flat_visited:
  "flat_classes nd \<Longrightarrow> snd (visited_defs nd None) = None
     \<and> map slot_name (fst (visited_defs nd None)) = lexical_names nd None"
  "flat_classes_children cs \<Longrightarrow> snd (visited_defs_children cs None) = None
     \<and> map slot_name (fst (visited_defs_children cs None)) = lexical_names_children cs None"
proof (induction nd and cs rule: flat_classes_flat_classes_children.induct)
  case (1 t x n f s e cs)
  show ?case
  proof (cases "t = ''class_definition''")
    case True
    with 1 have "class_free_children cs" by simp
    from class_free_visited(2) [OF this] True show ?thesis by (simp add: Let_def)
  next
    case False
    with 1 show ?thesis by (simp add: Let_def)
  qed
next
  case 2
  then show ?case by simp
next
  case (3 c cs)
  then show ?case by (simp add: Let_def)
qed

lemma extract_Inr:
  "parse code = Inr root \<Longrightarrow>
     extract_symbols_from_code parse code = Inr (file_symbols.truncate (traverse root init_state))"
  by (simp add: extract_symbols_from_code_def)

lemma truncate_fields:
  "fs_functions (file_symbols.truncate st) = fs_functions st"
  "fs_classes (file_symbols.truncate st) = fs_classes st"
  "fs_calls (file_symbols.truncate st) = fs_calls st"
  by (simp_all add: file_symbols.truncate_def)

lemma traverse_names:
  "map f_name (fs_functions (traverse root init_state)) = map slot_name (fst (visited_defs root None))"
proof -
  have "(\<lambda>v. f_name (case v of (n, slot) \<Rightarrow> function_symbol_of slot n)) = slot_name"
    by (rule ext) (simp add: f_name_function_symbol_of split: prod.splits)
  then show ?thesis
    using traverse_visited(1) [of root init_state]
    by (simp add: init_state_def comp_def)
qed

text \<open>
  C5. When the text parses, extraction returns a record whose function list carries,
  in the order of the walk, one qualified name per function definition: the content of
  the enclosing-class slot, a dot and the function's name when the slot holds a
  non-empty class name at that moment, the bare name otherwise. The slot is the single
  one of \<open>visited_defs\<close>: set on entering a class definition, cleared on leaving one,
  never stacked. When no class definition lies inside another, this is the
  qualification by the lexically enclosing class.
\<close>

theorem extract_qualified_names:
  assumes "parse code = Inr root"
  shows "\<exists>symbols. extract_symbols_from_code parse code = Inr symbols
     \<and> map f_name (fs_functions symbols) =
         map (\<lambda>(nd, slot).
                case slot of
                  Some cls \<Rightarrow> if cls \<noteq> [] then Some (cls @ ''.'' @ py_str (def_name nd))
                              else def_name nd
                | None \<Rightarrow> def_name nd)
           (fst (visited_defs root None))
     \<and> (flat_classes root \<longrightarrow> map f_name (fs_functions symbols) = lexical_names root None)"
proof -
  have e: "(\<lambda>(nd, slot).
                case slot of
                  Some cls \<Rightarrow> if cls \<noteq> [] then Some (cls @ ''.'' @ py_str (def_name nd))
                              else def_name nd
                | None \<Rightarrow> def_name nd) = slot_name"
    by (rule ext) (auto simp: slot_name_def split: prod.splits option.splits)
  show ?thesis
    unfolding e extract_Inr [of parse code root, OF assms]
    using traverse_names [of root] flat_visited(1) [of root]
    by (simp add: truncate_fields)
qed

lemma dog_visited:
  "map slot_name (fst (visited_defs dog_module None)) = [Some ''Dog.speak'', Some ''run'']"
  by (simp add: dog_module_def fixture_defs slot_name_def def_name_def child_by_field_name_def
      get_node_text_safe_def get_node_text_def py_str_def Let_def)

lemma dog_flat: "flat_classes dog_module"
  by (simp add: dog_module_def fixture_defs)

theorem extract_qualified_names_witness:
  "table_parser [(''dog'', dog_module)] ''dog'' = Inr dog_module
   \<and> (\<exists>symbols. extract_symbols_from_code (table_parser [(''dog'', dog_module)]) ''dog'' = Inr symbols
        \<and> map f_name (fs_functions symbols) = [Some ''Dog.speak'', Some ''run'']
        \<and> flat_classes dog_module
        \<and> lexical_names dog_module None = [Some ''Dog.speak'', Some ''run''])"
proof -
  have h: "table_parser [(''dog'', dog_module)] ''dog'' = Inr dog_module"
    by (simp add: table_parser_def)
  have e: "(\<lambda>(nd, slot).
                case slot of
                  Some cls \<Rightarrow> if cls \<noteq> [] then Some (cls @ ''.'' @ py_str (def_name nd))
                              else def_name nd
                | None \<Rightarrow> def_name nd) = slot_name"
    by (rule ext) (auto simp: slot_name_def split: prod.splits option.splits)
  show ?thesis
    using h extract_qualified_names [of "table_parser [(''dog'', dog_module)]" "''dog''" dog_module, OF h]
    unfolding e dog_visited using dog_flat by auto
qed

text \<open>
  C10. When the text parses, the keys of the calls mapping of the record returned are
  exactly the qualified names of its function list, each key once; the function names
  are the keys of the log of definitions in the order of the walk, and the mapping
  holds for each key the call list of the last definition in that order with this
  qualified name (possibly the empty list), and nothing for any other name.
\<close>

theorem extract_calls_keys:
  assumes "parse code = Inr root"
  shows "\<exists>symbols. extract_symbols_from_code parse code = Inr symbols
     \<and> set (map fst (fs_calls symbols)) = set (map f_name (fs_functions symbols))
     \<and> distinct (map fst (fs_calls symbols))
     \<and> map f_name (fs_functions symbols) = map fst (call_log root)
     \<and> (\<forall>q. dict_get (fs_calls symbols) q =
              (case filter (\<lambda>e. fst e = q) (call_log root) of
                 [] \<Rightarrow> None
               | e # es \<Rightarrow> Some (snd (last (e # es)))))"
proof -
  let ?st = "traverse root init_state"
  let ?vs = "fst (visited_defs root None)"
  have calls: "fs_calls ?st = fold add_call ?vs []"
    using traverse_visited(1) [of root init_state] by (simp add: init_state_def)
  have names: "map f_name (fs_functions ?st) = map fst (call_log root)"
    unfolding traverse_names call_log_def
    by (simp add: call_entry_def qualified_name_slot)
  have keys: "set (map fst (fs_calls ?st)) = set (map f_name (fs_functions ?st))"
    unfolding names calls using fold_add_call_keys [of ?vs "[]"] by (simp add: call_log_def image_image)
  have dist: "distinct (map fst (fs_calls ?st))"
    unfolding calls by (rule fold_add_call_distinct) simp
  have look: "dict_get (fs_calls ?st) q =
              (case filter (\<lambda>e. fst e = q) (call_log root) of
                 [] \<Rightarrow> None
               | e # es \<Rightarrow> Some (snd (last (e # es))))" for q
    unfolding calls dict_get_def fold_add_call_map_of call_log_def
    using map_of_rev_last [of "map call_entry ?vs" q] by simp
  show ?thesis
    unfolding extract_Inr [of parse code root, OF assms]
    by (intro exI [of _ "file_symbols.truncate ?st"] conjI allI)
       (simp_all only: truncate_fields keys dist names look)
qed

lemma rerun_log:
  "call_log rerun_module = [(Some ''run'', [''a'']), (Some ''run'', [''b''])]"
  by (simp add: call_log_def call_entry_def rerun_module_def fixture_defs qualified_name_def
      def_name_def child_by_field_name_def get_node_text_safe_def get_node_text_def py_str_def
      truthy_def call_here_def rewrite_callee_def startswith_def Let_def)

theorem extract_calls_keys_witness:
  "table_parser [(''rerun'', rerun_module)] ''rerun'' = Inr rerun_module
   \<and> (\<exists>symbols. extract_symbols_from_code (table_parser [(''rerun'', rerun_module)]) ''rerun'' = Inr symbols
        \<and> map f_name (fs_functions symbols) = [Some ''run'', Some ''run'']
        \<and> map fst (fs_calls symbols) = [Some ''run'']
        \<and> dict_get (fs_calls symbols) (Some ''run'') = Some [''b''])"
proof -
  have h: "table_parser [(''rerun'', rerun_module)] ''rerun'' = Inr rerun_module"
    by (simp add: table_parser_def)
  obtain symbols where s:
    "extract_symbols_from_code (table_parser [(''rerun'', rerun_module)]) ''rerun'' = Inr symbols"
    "set (map fst (fs_calls symbols)) = set (map f_name (fs_functions symbols))"
    "distinct (map fst (fs_calls symbols))"
    "map f_name (fs_functions symbols) = map fst (call_log rerun_module)"
    "\<And>q. dict_get (fs_calls symbols) q =
              (case filter (\<lambda>e. fst e = q) (call_log rerun_module) of
                 [] \<Rightarrow> None
               | e # es \<Rightarrow> Some (snd (last (e # es))))"
    using extract_calls_keys [of "table_parser [(''rerun'', rerun_module)]" "''rerun''" rerun_module, OF h]
    by blast
  have n: "map f_name (fs_functions symbols) = [Some ''run'', Some ''run'']"
    using s(4) by (simp add: rerun_log)
  have "set (map fst (fs_calls symbols)) = {Some ''run''}"
    using s(2) n by simp
  with s(3) have k: "map fst (fs_calls symbols) = [Some ''run'']"
    by (cases "fs_calls symbols") (auto simp: distinct_length_2_or_more dest!: subset_singletonD)
  have g: "dict_get (fs_calls symbols) (Some ''run'') = Some [''b'']"
    using s(5) [of "Some ''run''"] by (simp add: rerun_log)
  show ?thesis using h s(1) n k g by metis
qed

subsection \<open>The corpus indexer\<close>

lemma fold_upd_names:
  "fold (\<lambda>x t. t(key x \<mapsto> val (key x))) xs tab n =
     (if n \<in> key ` set xs then Some (val n) else tab n)"
  by (induction xs arbitrary: tab) auto

lemma add_symbols_apply:
  "add_symbols path symbols tab n =
     (if n \<in> symbol_names symbols then Some (path @ ''::'' @ py_str n) else tab n)"
  unfolding add_symbols_def symbol_names_def
  using fold_upd_names [of c_name "\<lambda>k. path @ ''::'' @ py_str k" "fs_classes symbols"]
        fold_upd_names [of f_name "\<lambda>k. path @ ''::'' @ py_str k" "fs_functions symbols"]
  by auto

lemma fold_add_symbols_apply:
  "fold (\<lambda>(path, symbols). add_symbols path symbols) es tab n =
     (case filter (\<lambda>(path, symbols). n \<in> symbol_names symbols) es of
        [] \<Rightarrow> tab n
      | e # es' \<Rightarrow> Some (fst (last (e # es')) @ ''::'' @ py_str n))"
proof (induction es arbitrary: tab)
  case Nil
  then show ?case by simp
next
  case (Cons e es)
  obtain path symbols where e: "e = (path, symbols)" by (cases e)
  have "fold (\<lambda>(path, symbols). add_symbols path symbols) (e # es) tab n =
      fold (\<lambda>(path, symbols). add_symbols path symbols) es (add_symbols path symbols tab) n"
    by (simp add: e)
  also have "\<dots> = (case filter (\<lambda>(path, symbols). n \<in> symbol_names symbols) es of
        [] \<Rightarrow> add_symbols path symbols tab n
      | e # es' \<Rightarrow> Some (fst (last (e # es')) @ ''::'' @ py_str n))"
    by (rule Cons.IH)
  also have "\<dots> = (case filter (\<lambda>(path, symbols). n \<in> symbol_names symbols) (e # es) of
        [] \<Rightarrow> tab n
      | e # es' \<Rightarrow> Some (fst (last (e # es')) @ ''::'' @ py_str n))"
    unfolding add_symbols_apply e by (simp split: list.splits)
  finally show ?case .
qed

lemma index_file_fields:
  "code_graph_data (index_file parse (path, content, hexsha) r) =
     (case extract_symbols_from_code parse content of
        Inl e \<Rightarrow> code_graph_data r
      | Inr symbols \<Rightarrow> dict_set (code_graph_data r) path symbols)"
  "symbol_table (index_file parse (path, content, hexsha) r) =
     (case extract_symbols_from_code parse content of
        Inl e \<Rightarrow> symbol_table r
      | Inr symbols \<Rightarrow> add_symbols path symbols (symbol_table r))"
  "all_patterns (index_file parse (path, content, hexsha) r) =
     (case extract_symbols_from_code parse content of
        Inl e \<Rightarrow> all_patterns r
      | Inr symbols \<Rightarrow> dict_set (all_patterns r) path (detect_design_patterns path symbols))"
  "reported (index_file parse (path, content, hexsha) r) =
     (case extract_symbols_from_code parse content of
        Inl e \<Rightarrow> reported r @ [''Error parsing '' @ path @ '': '' @ e]
      | Inr symbols \<Rightarrow> reported r)"
  by (simp_all add: index_file_def split: sum.splits)

lemma index_fold_fields:
  "code_graph_data (fold (index_file parse) files r) =
     fold (\<lambda>(path, symbols) d. dict_set d path symbols) (extracted parse files) (code_graph_data r)"
  "symbol_table (fold (index_file parse) files r) =
     fold (\<lambda>(path, symbols). add_symbols path symbols) (extracted parse files) (symbol_table r)"
  "all_patterns (fold (index_file parse) files r) =
     fold (\<lambda>(path, symbols) d. dict_set d path (detect_design_patterns path symbols))
       (extracted parse files) (all_patterns r)"
  "reported (fold (index_file parse) files r) =
     reported r @ concat (map (\<lambda>(path, file_content, hexsha).
                    case extract_symbols_from_code parse file_content of
                      Inl e \<Rightarrow> [''Error parsing '' @ path @ '': '' @ e]
                    | Inr symbols \<Rightarrow> []) files)"
proof (induction files arbitrary: r)
  case Nil
  {
    case 1 show ?case by (simp add: extracted_def)
  next
    case 2 show ?case by (simp add: extracted_def)
  next
    case 3 show ?case by (simp add: extracted_def)
  next
    case 4 show ?case by simp
  }
next
  case (Cons f files)
  obtain path content hexsha where f: "f = (path, content, hexsha)" by (cases f)
  have ex: "extracted parse ((path, content, hexsha) # files) =
      (case extract_symbols_from_code parse content of Inl e \<Rightarrow> [] | Inr symbols \<Rightarrow> [(path, symbols)])
      @ extracted parse files"
    by (simp add: extracted_def)
  {
    case 1 show ?case
      unfolding f ex by (simp add: Cons.IH(1) index_file_fields split: sum.splits)
  next
    case 2 show ?case
      unfolding f ex by (simp add: Cons.IH(2) index_file_fields split: sum.splits)
  next
    case 3 show ?case
      unfolding f ex by (simp add: Cons.IH(3) index_file_fields split: sum.splits)
  next
    case 4 show ?case
      unfolding f by (simp add: Cons.IH(4) index_file_fields split: sum.splits)
  }
qed

lemma index_files_table:
  "symbol_table (index_files parse files) =
     fold (\<lambda>(path, symbols). add_symbols path symbols) (extracted parse files) Map.empty"
  unfolding index_files_def index_fold_fields by simp


lemma fold_dict_set_fresh:
  "distinct (map fst es) \<Longrightarrow> fst ` set d \<inter> fst ` set es = {} \<Longrightarrow>
     fold (\<lambda>(k, v) d. dict_set d k v) es d = d @ es"
proof (induction es arbitrary: d)
  case Nil
  then show ?case by simp
next
  case (Cons e es)
  obtain k v where e: "e = (k, v)" by (cases e)
  have fresh: "k \<notin> fst ` set d" using Cons.prems(2) e by auto
  have "fold (\<lambda>(k, v) d. dict_set d k v) (e # es) d = fold (\<lambda>(k, v) d. dict_set d k v) es (d @ [(k, v)])"
    by (simp add: e dict_set_new [OF fresh])
  also have "\<dots> = (d @ [(k, v)]) @ es"
  proof (rule Cons.IH)
    show "distinct (map fst es)" using Cons.prems(1) by simp
    show "fst ` set (d @ [(k, v)]) \<inter> fst ` set es = {}"
      using Cons.prems e by auto
  qed
  finally show ?case by (simp add: e)
qed

lemma extracted_Nil: "extracted parse [] = []"
  by (simp add: extracted_def)

lemma extracted_Cons:
  "extracted parse ((p, c, h) # files) =
      (case extract_symbols_from_code parse c of Inl e \<Rightarrow> [] | Inr symbols \<Rightarrow> [(p, symbols)])
      @ extracted parse files"
  by (simp add: extracted_def)

lemma extracted_paths_subset: "fst ` set (extracted parse files) \<subseteq> fst ` set files"
proof (induction files)
  case Nil
  then show ?case by (simp add: extracted_Nil)
next
  case (Cons f files)
  obtain p c h where f: "f = (p, c, h)" by (cases f)
  show ?case unfolding f extracted_Cons using Cons by (cases "extract_symbols_from_code parse c") auto
qed

lemma extracted_distinct:
  "distinct (map fst files) \<Longrightarrow> distinct (map fst (extracted parse files))"
proof (induction files)
  case Nil
  then show ?case by (simp add: extracted_Nil)
next
  case (Cons f files)
  obtain p c h where f: "f = (p, c, h)" by (cases f)
  have "p \<notin> fst ` set (extracted parse files)"
    using Cons.prems f extracted_paths_subset [of parse files] by auto
  then show ?case
    using Cons unfolding f extracted_Cons
    by (cases "extract_symbols_from_code parse c") auto
qed

lemma index_files_data:
  assumes "distinct (map fst files)"
  shows "code_graph_data (index_files parse files) = extracted parse files"
  unfolding index_files_def index_fold_fields
  using fold_dict_set_fresh [OF extracted_distinct [OF assms], of "[]" parse] by simp

lemma extracted_without:
  assumes "extract_symbols_from_code parse content = Inl e"
    and "\<forall>(p, c, h) \<in> set files. p = path \<longrightarrow> c = content"
  shows "extracted parse files = extracted parse (filter (\<lambda>f. fst f \<noteq> path) files)"
  using assms(2)
proof (induction files)
  case Nil
  then show ?case by simp
next
  case (Cons f files)
  obtain p c h where f: "f = (p, c, h)" by (cases f)
  have ih: "extracted parse files = extracted parse (filter (\<lambda>f. fst f \<noteq> path) files)"
    using Cons by simp
  show ?case
  proof (cases "p = path")
    case True
    then have "c = content" using Cons.prems f by simp
    then show ?thesis unfolding f using True ih assms(1) by (simp add: extracted_Cons)
  next
    case False
    then show ?thesis unfolding f using ih by (simp add: extracted_Cons)
  qed
qed

lemma extracted_keys:
  assumes "\<forall>(p, c, h) \<in> set files. p \<noteq> path \<longrightarrow> (\<exists>symbols. extract_symbols_from_code parse c = Inr symbols)"
    and "\<forall>(p, c, h) \<in> set files. p = path \<longrightarrow> (\<exists>e. extract_symbols_from_code parse c = Inl e)"
  shows "map fst (extracted parse files) = filter (\<lambda>p. p \<noteq> path) (map fst files)"
  using assms
proof (induction files)
  case Nil
  then show ?case by (simp add: extracted_Nil)
next
  case (Cons f files)
  obtain p c h where f: "f = (p, c, h)" by (cases f)
  have ih: "map fst (extracted parse files) = filter (\<lambda>p. p \<noteq> path) (map fst files)"
    using Cons by simp
  show ?case
  proof (cases "p = path")
    case True
    then obtain e where "extract_symbols_from_code parse c = Inl e"
      using Cons.prems(2) f by auto
    then show ?thesis unfolding f extracted_Cons using ih True by simp
  next
    case False
    then obtain symbols where "extract_symbols_from_code parse c = Inr symbols"
      using Cons.prems(1) f by auto
    then show ?thesis unfolding f extracted_Cons using ih False by simp
  qed
qed

lemma reported_one:
  assumes "distinct (map fst files)"
    and "(path, content, hexsha) \<in> set files"
    and "extract_symbols_from_code parse content = Inl e"
    and "\<forall>(p, c, h) \<in> set files. p \<noteq> path \<longrightarrow> (\<exists>symbols. extract_symbols_from_code parse c = Inr symbols)"
  shows "concat (map (\<lambda>(path, file_content, hexsha).
                    case extract_symbols_from_code parse file_content of
                      Inl e \<Rightarrow> [''Error parsing '' @ path @ '': '' @ e]
                    | Inr symbols \<Rightarrow> []) files) = [''Error parsing '' @ path @ '': '' @ e]"
  using assms(1,2,4)
proof (induction files)
  case Nil
  then show ?case by simp
next
  case (Cons f files)
  obtain p c h where f: "f = (p, c, h)" by (cases f)
  show ?case
  proof (cases "p = path")
    case True
    then have notin: "path \<notin> fst ` set files" using Cons.prems(1) f by auto
    then have here: "(p, c, h) = (path, content, hexsha)"
      using Cons.prems(2) f by force
    have rest: "concat (map (\<lambda>(path, file_content, hexsha).
                    case extract_symbols_from_code parse file_content of
                      Inl e \<Rightarrow> [''Error parsing '' @ path @ '': '' @ e]
                    | Inr symbols \<Rightarrow> []) files) = []"
    proof -
      have "\<forall>f \<in> set files. (case f of (path, file_content, hexsha) \<Rightarrow>
                    case extract_symbols_from_code parse file_content of
                      Inl e \<Rightarrow> [''Error parsing '' @ path @ '': '' @ e]
                    | Inr symbols \<Rightarrow> []) = []"
      proof
        fix f assume fin: "f \<in> set files"
        obtain p' c' h' where f': "f = (p', c', h')" by (cases f)
        have "p' \<noteq> path" using fin notin f' by force
        then obtain symbols where "extract_symbols_from_code parse c' = Inr symbols"
          using Cons.prems(3) fin f' by auto
        then show "(case f of (path, file_content, hexsha) \<Rightarrow>
                    case extract_symbols_from_code parse file_content of
                      Inl e \<Rightarrow> [''Error parsing '' @ path @ '': '' @ e]
                    | Inr symbols \<Rightarrow> []) = []"
          by (simp add: f')
      qed
      then show ?thesis by (induction files) auto
    qed
    show ?thesis unfolding f using here rest assms(3) by simp
  next
    case False
    then have "(path, content, hexsha) \<in> set files" using Cons.prems(2) f by auto
    moreover have "\<exists>symbols. extract_symbols_from_code parse c = Inr symbols"
      using Cons.prems(3) False f by auto
    ultimately show ?thesis unfolding f using Cons.IH Cons.prems(1,3) by auto
  qed
qed

lemma length_filter_neq:
  "distinct xs \<Longrightarrow> x \<in> set xs \<Longrightarrow> length (filter (\<lambda>y. y \<noteq> x) xs) = length xs - 1"
proof (induction xs)
  case Nil
  then show ?case by simp
next
  case (Cons a xs)
  show ?case
  proof (cases "a = x")
    case True
    then have "x \<notin> set xs" using Cons.prems by simp
    then have "filter (\<lambda>y. y \<noteq> x) xs = xs" by (auto simp: filter_id_conv)
    with True show ?thesis by simp
  next
    case False
    then have "x \<in> set xs" using Cons.prems by simp
    then have "length xs > 0" by (cases xs) auto
    with False Cons show ?thesis by simp
  qed
qed

lemma index_files_reported:
  "reported (index_files parse files) =
     concat (map (\<lambda>(path, file_content, hexsha).
                    case extract_symbols_from_code parse file_content of
                      Inl e \<Rightarrow> [''Error parsing '' @ path @ '': '' @ e]
                    | Inr symbols \<Rightarrow> []) files)"
  unfolding index_files_def index_fold_fields by simp

text \<open>
  C7. In a corpus with distinct paths where extraction raises for exactly one file,
  the indexer returns: the failure is reported in one line that names the file, the
  paths of the returned records are the paths of the other files in their order (one
  fewer than the files, the failed path not among them), and the returned records and
  symbol table are those of the corpus without the failed file.
\<close>

theorem one_file_fails:
  assumes "distinct (map fst python_files)"
    and "(path, file_content, hexsha) \<in> set python_files"
    and "extract_symbols_from_code parse file_content = Inl e"
    and "\<forall>(p, c, h) \<in> set python_files.
           p \<noteq> path \<longrightarrow> (\<exists>symbols. extract_symbols_from_code parse c = Inr symbols)"
  shows "reported (index_files parse python_files) = [''Error parsing '' @ path @ '': '' @ e]
    \<and> map fst (code_graph_data (index_files parse python_files))
        = filter (\<lambda>p. p \<noteq> path) (map fst python_files)
    \<and> length (code_graph_data (index_files parse python_files)) = length python_files - 1
    \<and> code_graph_data (index_files parse python_files)
        = code_graph_data (index_files parse (filter (\<lambda>f. fst f \<noteq> path) python_files))
    \<and> symbol_table (index_files parse python_files)
        = symbol_table (index_files parse (filter (\<lambda>f. fst f \<noteq> path) python_files))"
proof -
  have same: "\<forall>(p, c, h) \<in> set python_files. p = path \<longrightarrow> c = file_content"
  proof (clarify)
    fix c h assume "(path, c, h) \<in> set python_files"
    with assms(1,2) show "c = file_content"
      by (metis eq_key_imp_eq_value prod.inject)
  qed
  then have fails: "\<forall>(p, c, h) \<in> set python_files.
      p = path \<longrightarrow> (\<exists>e. extract_symbols_from_code parse c = Inl e)"
    using assms(3) by auto
  have rep: "reported (index_files parse python_files) = [''Error parsing '' @ path @ '': '' @ e]"
    unfolding index_files_reported by (rule reported_one [OF assms])
  have keys: "map fst (code_graph_data (index_files parse python_files))
      = filter (\<lambda>p. p \<noteq> path) (map fst python_files)"
    unfolding index_files_data [OF assms(1)] by (rule extracted_keys [OF assms(4) fails])
  have len: "length (code_graph_data (index_files parse python_files)) = length python_files - 1"
  proof -
    have "length (code_graph_data (index_files parse python_files))
        = length (map fst (code_graph_data (index_files parse python_files)))" by simp
    also have "\<dots> = length (map fst python_files) - 1"
      unfolding keys
      by (rule length_filter_neq [OF assms(1)]) (use assms(2) in force)
    finally show ?thesis by simp
  qed
  have d': "distinct (map fst (filter (\<lambda>f. fst f \<noteq> path) python_files))"
    using assms(1) by (simp add: distinct_map_filter)
  have ex: "extracted parse python_files = extracted parse (filter (\<lambda>f. fst f \<noteq> path) python_files)"
    by (rule extracted_without [OF assms(3) same])
  have data: "code_graph_data (index_files parse python_files)
        = code_graph_data (index_files parse (filter (\<lambda>f. fst f \<noteq> path) python_files))"
    unfolding index_files_data [OF assms(1)] index_files_data [OF d'] by (rule ex)
  have tab: "symbol_table (index_files parse python_files)
        = symbol_table (index_files parse (filter (\<lambda>f. fst f \<noteq> path) python_files))"
    unfolding index_files_table using ex by simp
  show ?thesis using rep keys len data tab by blast
qed

lemma run_parser_simps:
  "run_parser ''def run(): a()'' = Inr run_module"
  "run_parser ''def run(:'' = Inl ''parse failed''"
  by (simp_all add: run_parser_def table_parser_def)

lemma run_extract:
  "extract_symbols_from_code run_parser ''def run(): a()''
     = Inr (file_symbols.truncate (traverse run_module init_state))"
  "extract_symbols_from_code run_parser ''def run(:'' = Inl ''parse failed''"
  by (simp_all add: extract_symbols_from_code_def run_parser_simps)


theorem one_file_fails_witness:
  "distinct (map fst three_files)
   \<and> (''bad.py'', ''def run(:'', ''0b'') \<in> set three_files
   \<and> extract_symbols_from_code run_parser ''def run(:'' = Inl ''parse failed''
   \<and> reported (index_files run_parser three_files) = [''Error parsing bad.py: parse failed'']
   \<and> map fst (code_graph_data (index_files run_parser three_files)) = [''a.py'', ''c.py'']
   \<and> length (code_graph_data (index_files run_parser three_files)) = 2"
proof -
  have h1: "distinct (map fst three_files)" by (simp add: three_files_def)
  have h2: "(''bad.py'', ''def run(:'', ''0b'') \<in> set three_files" by (simp add: three_files_def)
  have h3: "extract_symbols_from_code run_parser ''def run(:'' = Inl ''parse failed''"
    by (rule run_extract(2))
  have h4: "\<forall>(p, c, h) \<in> set three_files.
           p \<noteq> ''bad.py'' \<longrightarrow> (\<exists>symbols. extract_symbols_from_code run_parser c = Inr symbols)"
    by (simp add: three_files_def run_extract)
  have k: "filter (\<lambda>p. p \<noteq> ''bad.py'') (map fst three_files) = [''a.py'', ''c.py'']"
    by (simp add: three_files_def)
  have l: "length three_files - 1 = 2" by (simp add: three_files_def)
  note r = one_file_fails [OF h1 h2 h3 h4, unfolded k l]
  have rep: "reported (index_files run_parser three_files) = [''Error parsing bad.py: parse failed'']"
    using conjunct1 [OF r] by simp
  have keys: "map fst (code_graph_data (index_files run_parser three_files)) = [''a.py'', ''c.py'']"
    using conjunct1 [OF conjunct2 [OF r]] .
  have len: "length (code_graph_data (index_files run_parser three_files)) = 2"
    using conjunct1 [OF conjunct2 [OF conjunct2 [OF r]]] .
  show ?thesis using h1 h2 h3 rep keys len by blast
qed



lemma extracted_sorted:
  "sorted (map fst files) \<Longrightarrow> sorted (map fst (extracted parse files))"
proof (induction files)
  case Nil
  then show ?case by (simp add: extracted_Nil)
next
  case (Cons f files)
  obtain p c h where f: "f = (p, c, h)" by (cases f)
  have le: "\<forall>q \<in> fst ` set (extracted parse files). p \<le> q"
  proof
    fix q assume "q \<in> fst ` set (extracted parse files)"
    then have "q \<in> fst ` set files" using extracted_paths_subset [of parse files] by blast
    then show "p \<le> q" using Cons.prems f by auto
  qed
  have "sorted (map fst (extracted parse files))" using Cons by simp
  with le show ?case
    unfolding f extracted_Cons by (cases "extract_symbols_from_code parse c") auto
qed

lemma sorted_input_agrees:
  "sorted (map fst python_files) \<Longrightarrow>
     sorted_pass_table parse python_files = symbol_table (index_files parse python_files)"
  unfolding sorted_pass_table_def index_files_table
  by (simp add: sort_key_id_if_sorted extracted_sorted)

lemma build_code_symbol_graph_data_eq:
  "build_code_symbol_graph_data parse walk repo_path None = index_files parse []"
  "build_code_symbol_graph_data parse walk repo_path (Some []) = index_files parse []"
  "h \<noteq> [] \<Longrightarrow>
     build_code_symbol_graph_data parse walk repo_path (Some h) = index_files parse (walk repo_path h)"
  by (simp_all add: build_code_symbol_graph_data_def)

lemma and_then_None:
  "snd (and_then a b) = None \<longleftrightarrow> snd a = None \<and> snd b = None"
  by (cases a; cases b) (auto simp: and_then_def split: option.splits)

lemma and_then_fst:
  "snd a = None \<Longrightarrow> fst (and_then a b) = fst a @ fst b"
  by (cases a) (auto simp: and_then_def)

lemma for_each_None:
  "snd (for_each body xs) = None \<longleftrightarrow> (\<forall>x \<in> set xs. snd (body x) = None)"
  by (induction xs) (auto simp: and_then_None)

lemma for_each_fst:
  "snd (for_each body xs) = None \<Longrightarrow> fst (for_each body xs) = concat (map (\<lambda>x. fst (body x)) xs)"
  by (induction xs) (auto simp: and_then_None and_then_fst)

lemma for_each_member:
  assumes "snd (for_each body xs) = None" and "x \<in> set xs" and "op \<in> set (fst (body x))"
  shows "op \<in> set (fst (for_each body xs))"
  unfolding for_each_fst [OF assms(1)] using assms(2,3) by auto

lemma startswith_append: "startswith (p @ s) p"
  by (simp add: startswith_def)

lemma override_ops_emits:
  assumes "c_name cls = Some cname" and "CHR ''.'' \<notin> set cname"
    and "f_name func = Some (cname @ ''.'' @ mname)" and "CHR ''.'' \<notin> set mname"
    and "symtable (Some (base @ ''.'' @ mname)) = Some overridden_id" and "overridden_id \<noteq> []"
  shows "override_ops symtable filepath cls base func =
     ([Merge_relationship ''Function'' ''id'' (PyStr (filepath @ ''::'' @ cname @ ''.'' @ mname))
         ''OVERRIDES'' ''Function'' ''id'' (PyStr overridden_id) None], None)"
proof -
  have d: "has_dot (cname @ ''.'' @ mname)" by (simp add: has_dot_def)
  have s: "startswith (cname @ ''.'' @ mname) (cname @ ''.'')"
    using startswith_append [of "cname @ ''.''" mname] by simp
  have m: "split_dot (cname @ ''.'' @ mname) ! 1 = mname"
    using split_dot_method [OF assms(2,4)] by simp
  show ?thesis
    unfolding override_ops_def assms(1,3) Let_def
    using d s m assms(5,6) by (simp add: truthy_def opt_val_def py_str_def)
qed

lemma base_ops_member:
  assumes ok: "snd (base_ops symtable filepath symbols cls base) = None"
    and cls: "c_name cls = Some cname" "CHR ''.'' \<notin> set cname"
    and base: "symtable (Some base) = Some base_id" "base_id \<noteq> []"
    and func: "func \<in> set (fs_functions symbols)" "f_name func = Some (cname @ ''.'' @ mname)"
      "CHR ''.'' \<notin> set mname"
    and over: "symtable (Some (base @ ''.'' @ mname)) = Some overridden_id" "overridden_id \<noteq> []"
  shows "Merge_relationship ''Class'' ''id'' (PyStr (filepath @ ''::'' @ cname)) ''INHERITS''
           ''Class'' ''id'' (PyStr base_id) None
           \<in> set (fst (base_ops symtable filepath symbols cls base))"
    and "Merge_relationship ''Function'' ''id'' (PyStr (filepath @ ''::'' @ cname @ ''.'' @ mname))
           ''OVERRIDES'' ''Function'' ''id'' (PyStr overridden_id) None
           \<in> set (fst (base_ops symtable filepath symbols cls base))"
proof -
  let ?loop = "for_each (override_ops symtable filepath cls base) (fs_functions symbols)"
  let ?inh = "[Merge_relationship ''Class'' ''id'' (PyStr (filepath @ ''::'' @ cname)) ''INHERITS''
                 ''Class'' ''id'' (PyStr base_id) None]"
  have eq: "base_ops symtable filepath symbols cls base = and_then (?inh, None) ?loop"
    unfolding base_ops_def Let_def using base cls(1)
    by (simp add: truthy_def opt_val_def py_str_def)
  have okl: "snd ?loop = None" using ok unfolding eq and_then_None by simp
  have f: "fst (base_ops symtable filepath symbols cls base) = ?inh @ fst ?loop"
    unfolding eq by (simp add: and_then_fst)
  show "Merge_relationship ''Class'' ''id'' (PyStr (filepath @ ''::'' @ cname)) ''INHERITS''
           ''Class'' ''id'' (PyStr base_id) None
           \<in> set (fst (base_ops symtable filepath symbols cls base))"
    unfolding f by simp
  have "Merge_relationship ''Function'' ''id'' (PyStr (filepath @ ''::'' @ cname @ ''.'' @ mname))
           ''OVERRIDES'' ''Function'' ''id'' (PyStr overridden_id) None \<in> set (fst ?loop)"
    by (rule for_each_member [OF okl func(1)])
       (simp add: override_ops_emits [where cls = cls and cname = cname and func = func
            and mname = mname and symtable = symtable and base = base
            and overridden_id = overridden_id, OF cls func(2,3) over])
  then show "Merge_relationship ''Function'' ''id'' (PyStr (filepath @ ''::'' @ cname @ ''.'' @ mname))
           ''OVERRIDES'' ''Function'' ''id'' (PyStr overridden_id) None
           \<in> set (fst (base_ops symtable filepath symbols cls base))"
    unfolding f by simp
qed

lemma class_ops_member:
  assumes "snd (class_ops symtable filepath symbols cls) = None" and "base \<in> set (c_bases cls)"
    and "op \<in> set (fst (base_ops symtable filepath symbols cls base))"
  shows "snd (base_ops symtable filepath symbols cls base) = None"
    and "op \<in> set (fst (class_ops symtable filepath symbols cls))"
proof -
  let ?loop = "for_each (base_ops symtable filepath symbols cls) (c_bases cls)"
  have okl: "snd ?loop = None"
    using assms(1) unfolding class_ops_def Let_def and_then_None by simp
  show "snd (base_ops symtable filepath symbols cls base) = None"
    using okl assms(2) unfolding for_each_None by blast
  have "op \<in> set (fst ?loop)" by (rule for_each_member [OF okl assms(2,3)])
  then show "op \<in> set (fst (class_ops symtable filepath symbols cls))"
    unfolding class_ops_def Let_def by (simp add: and_then_fst)
qed

lemma file_ops_eq:
  "file_ops symtable (filepath, symbols) =
     and_then
       ([Merge_node ''File'' [(''path'', PyStr filepath), (''name'', PyStr (basename filepath))] ''path'']
        @ concat (map (function_ops filepath) (fs_functions symbols)), None)
       (and_then
          (for_each (class_ops symtable filepath symbols) (fs_classes symbols))
          (concat (map (import_ops filepath) (fs_imports symbols))
           @ concat (map (caller_ops symtable filepath symbols) (fs_calls symbols)), None))"
  by (simp add: file_ops_def)

lemma file_ops_classes_ok:
  "snd (file_ops symtable (filepath, symbols)) = None \<longleftrightarrow>
     snd (for_each (class_ops symtable filepath symbols) (fs_classes symbols)) = None"
  unfolding file_ops_eq and_then_None by simp

lemma file_ops_member:
  assumes "snd (file_ops symtable (filepath, symbols)) = None" and "cls \<in> set (fs_classes symbols)"
    and "op \<in> set (fst (class_ops symtable filepath symbols cls))"
  shows "op \<in> set (fst (file_ops symtable (filepath, symbols)))"
proof -
  let ?loop = "for_each (class_ops symtable filepath symbols) (fs_classes symbols)"
  have okl: "snd ?loop = None"
    using assms(1) unfolding file_ops_classes_ok .
  have "op \<in> set (fst ?loop)" by (rule for_each_member [OF okl assms(2,3)])
  then show ?thesis
    unfolding file_ops_eq using okl by (simp add: and_then_fst and_then_None)
qed

lemma file_ops_class_ok:
  assumes "snd (file_ops symtable (filepath, symbols)) = None" and "cls \<in> set (fs_classes symbols)"
  shows "snd (class_ops symtable filepath symbols cls) = None"
  using assms unfolding file_ops_classes_ok for_each_None by simp

lemma override_ops_ok:
  "f_name func \<noteq> None \<Longrightarrow> c_name cls \<noteq> None \<Longrightarrow>
     snd (override_ops symtable filepath cls base func) = None"
  by (auto simp: override_ops_def Let_def split: option.splits)

lemma populate_ok:
  assumes "\<forall>(filepath, symbols) \<in> set graph_data.
      (\<forall>func \<in> set (fs_functions symbols). f_name func \<noteq> None)
      \<and> (\<forall>cls \<in> set (fs_classes symbols). c_name cls \<noteq> None)"
  shows "snd (populate_graph_from_code_data graph_data symtable) = None"
proof -
  have "snd (file_ops symtable entry) = None" if "entry \<in> set graph_data" for entry
  proof -
    obtain filepath symbols where e: "entry = (filepath, symbols)" by (cases entry)
    have fs: "\<forall>func \<in> set (fs_functions symbols). f_name func \<noteq> None"
      and cs: "\<forall>cls \<in> set (fs_classes symbols). c_name cls \<noteq> None"
      using assms that e by auto
    have "snd (class_ops symtable filepath symbols cls) = None" if "cls \<in> set (fs_classes symbols)" for cls
    proof -
      have n: "c_name cls \<noteq> None" using cs that by simp
      have "snd (base_ops symtable filepath symbols cls base) = None" for base
        unfolding base_ops_def Let_def
        using fs n by (simp add: and_then_None for_each_None override_ops_ok)
      then show ?thesis
        unfolding class_ops_def Let_def by (simp add: and_then_None for_each_None)
    qed
    then show ?thesis unfolding e file_ops_classes_ok for_each_None by simp
  qed
  then show ?thesis unfolding populate_graph_from_code_data_def for_each_None by simp
qed

text \<open>
  C3. When the linker runs to its end, for a file with a class whose name has no dot,
  a base-class reference that the symbol table resolves, and a function of the file
  named by the class name, a dot and a dot-free method name, such that the symbol table
  also resolves the base reference joined to that method name: the calls made include
  an \<open>INHERITS\<close> edge from the class node (file path, \<open>::\<close>, class name) to the identifier
  of the base, and an \<open>OVERRIDES\<close> edge from the node of the method (file path, \<open>::\<close>,
  class name, dot, method name) to the identifier the symbol table gives for the base's
  method. Only the names are compared, and this holds for every such method.
\<close>

theorem inherits_and_overrides:
  assumes "snd (populate_graph_from_code_data graph_data symtable) = None"
    and "(filepath, symbols) \<in> set graph_data"
    and "cls \<in> set (fs_classes symbols)" and "c_name cls = Some cname"
    and "CHR ''.'' \<notin> set cname"
    and "base \<in> set (c_bases cls)" and "symtable (Some base) = Some base_id"
    and "base_id \<noteq> []"
    and "func \<in> set (fs_functions symbols)" and "f_name func = Some (cname @ ''.'' @ mname)"
    and "CHR ''.'' \<notin> set mname"
    and "symtable (Some (base @ ''.'' @ mname)) = Some overridden_id"
    and "overridden_id \<noteq> []"
  shows "Merge_relationship ''Class'' ''id'' (PyStr (filepath @ ''::'' @ cname)) ''INHERITS''
           ''Class'' ''id'' (PyStr base_id) None
           \<in> set (fst (populate_graph_from_code_data graph_data symtable))
     \<and> Merge_relationship ''Function'' ''id'' (PyStr (filepath @ ''::'' @ cname @ ''.'' @ mname))
           ''OVERRIDES'' ''Function'' ''id'' (PyStr overridden_id) None
           \<in> set (fst (populate_graph_from_code_data graph_data symtable))"
proof -
  have okf: "snd (file_ops symtable (filepath, symbols)) = None"
    using assms(1,2) unfolding populate_graph_from_code_data_def for_each_None by auto
  have okc: "snd (class_ops symtable filepath symbols cls) = None"
    by (rule file_ops_class_ok [OF okf assms(3)])
  have okb: "snd (base_ops symtable filepath symbols cls base) = None"
    using okc assms(6) unfolding class_ops_def Let_def and_then_None for_each_None by simp
  note edges = base_ops_member [where cname = cname and mname = mname and base_id = base_id
      and overridden_id = overridden_id, OF okb assms(4,5) assms(7,8) assms(9,10,11) assms(12,13)]
  have lift: "op \<in> set (fst (populate_graph_from_code_data graph_data symtable))"
    if "op \<in> set (fst (base_ops symtable filepath symbols cls base))" for op
  proof -
    have "op \<in> set (fst (class_ops symtable filepath symbols cls))"
      by (rule class_ops_member(2) [OF okc assms(6) that])
    then have "op \<in> set (fst (file_ops symtable (filepath, symbols)))"
      by (rule file_ops_member [OF okf assms(3)])
    then show ?thesis
      unfolding populate_graph_from_code_data_def
      by (rule for_each_member [OF assms(1) [unfolded populate_graph_from_code_data_def] assms(2)])
  qed
  show ?thesis using lift [OF edges(1)] lift [OF edges(2)] by simp
qed

theorem inherits_and_overrides_witness:
  "snd (populate_graph_from_code_data [(''zoo.py'', zoo_symbols)] zoo_table) = None
   \<and> Merge_relationship ''Class'' ''id'' (PyStr ''zoo.py::Dog'') ''INHERITS''
        ''Class'' ''id'' (PyStr ''zoo.py::Animal'') None
        \<in> set (fst (populate_graph_from_code_data [(''zoo.py'', zoo_symbols)] zoo_table))
   \<and> Merge_relationship ''Function'' ''id'' (PyStr ''zoo.py::Dog.speak'') ''OVERRIDES''
        ''Function'' ''id'' (PyStr ''zoo.py::Animal.speak'') None
        \<in> set (fst (populate_graph_from_code_data [(''zoo.py'', zoo_symbols)] zoo_table))"
proof -
  let ?dog = "\<lparr>c_name = Some ''Dog'', c_lineno = 3, c_col_offset = 0, c_end_lineno = 4,
          c_end_col_offset = 31,
          c_code_snippet = ''class Dog(Animal):'' @ [CHR 0x0A] @ ''    def speak(self): self.bark()'',
          c_bases = [''Animal''], c_attributes = []\<rparr>"
  let ?speak = "\<lparr>f_name = Some ''Dog.speak'', f_lineno = 4, f_col_offset = 4, f_end_lineno = 4,
          f_end_col_offset = 31, f_code_snippet = ''def speak(self): self.bark()'', f_is_static = False\<rparr>"
  have ok: "snd (populate_graph_from_code_data [(''zoo.py'', zoo_symbols)] zoo_table) = None"
    by (rule populate_ok) (simp add: zoo_symbols_def)
  have e: "Merge_relationship ''Class'' ''id'' (PyStr (''zoo.py'' @ ''::'' @ ''Dog'')) ''INHERITS''
           ''Class'' ''id'' (PyStr ''zoo.py::Animal'') None
           \<in> set (fst (populate_graph_from_code_data [(''zoo.py'', zoo_symbols)] zoo_table))
     \<and> Merge_relationship ''Function'' ''id'' (PyStr (''zoo.py'' @ ''::'' @ ''Dog'' @ ''.'' @ ''speak''))
           ''OVERRIDES'' ''Function'' ''id'' (PyStr ''zoo.py::Animal.speak'') None
           \<in> set (fst (populate_graph_from_code_data [(''zoo.py'', zoo_symbols)] zoo_table))"
    by (rule inherits_and_overrides [where symbols = zoo_symbols and cls = ?dog and base = "''Animal''"
          and func = ?speak, OF ok])
       (simp_all add: zoo_symbols_def zoo_table_def)
  show ?thesis using ok e by simp
qed

subsection \<open>Class attributes\<close>

lemma traverse_classes_sound:
  "fs_classes (traverse sound_module init_state) = [class_symbol_of sound_class]"
  by (simp add: sound_module_def sound_class_def fixture_defs init_state_def enter_def leave_def)

text \<open>
  C6, at the class \<open>Dog\<close> whose body is the single assignment \<open>sound = 1\<close>: the body of
  the class has the assignment target \<open>sound\<close>, and extraction returns the class with an
  empty attribute list, because the scan reads the immediate children of the class node
  and the statements of the body lie one level below, in the block.
\<close>

theorem class_body_attributes_missed:
  "body_assignment_targets sound_class = [''sound'']
   \<and> (\<exists>symbols. extract_symbols_from_code sound_parser (''class Dog:'' @ [CHR 0x0A] @ ''    sound = 1'')
          = Inr symbols
        \<and> map c_name (fs_classes symbols) = [Some ''Dog'']
        \<and> map c_attributes (fs_classes symbols) = [[]])"
proof -
  have a: "body_assignment_targets sound_class = [''sound'']"
    by (simp add: body_assignment_targets_def sound_class_def fixture_defs child_by_field_name_def
        named_children_def attrs_of_child_def get_node_text_def)
  have p: "sound_parser (''class Dog:'' @ [CHR 0x0A] @ ''    sound = 1'') = Inr sound_module"
    by (simp add: sound_parser_def table_parser_def)
  have c: "class_symbol_of sound_class =
      \<lparr>c_name = Some ''Dog'', c_lineno = 1, c_col_offset = 0, c_end_lineno = 2, c_end_col_offset = 13,
       c_code_snippet = ''class Dog:'' @ [CHR 0x0A] @ ''    sound = 1'', c_bases = [], c_attributes = []\<rparr>"
    by (simp add: class_symbol_of_def sound_class_def fixture_defs child_by_field_name_def
        named_children_def attrs_of_child_def bases_of_child_def get_node_text_def
        get_node_text_safe_def)
  show ?thesis
    using a extract_Inr [of sound_parser _ sound_module, OF p]
    by (simp add: truncate_fields traverse_classes_sound c)
qed

lemma class_ops_attributes:
  "\<exists>rest. fst (class_ops symtable filepath symbols cls) =
     [Merge_node ''Class''
        [(''id'', PyStr (filepath @ ''::'' @ py_str (c_name cls))), (''name'', opt_val (c_name cls)),
         (''lineno'', PyInt (c_lineno cls)), (''end_lineno'', PyInt (c_end_lineno cls)),
         (''file_path'', PyStr filepath), (''code_snippet'', PyStr (c_code_snippet cls))] ''id'',
      Merge_relationship ''File'' ''path'' (PyStr filepath) ''CONTAINS_CLASS''
        ''Class'' ''id'' (PyStr (filepath @ ''::'' @ py_str (c_name cls))) None]
     @ concat (map (\<lambda>attr.
         [Merge_node ''Attribute''
            [(''id'', PyStr (filepath @ ''::'' @ py_str (c_name cls) @ ''::'' @ attr)),
             (''name'', PyStr attr),
             (''class_id'', PyStr (filepath @ ''::'' @ py_str (c_name cls))),
             (''file_path'', PyStr filepath)] ''id'',
          Merge_relationship ''Class'' ''id'' (PyStr (filepath @ ''::'' @ py_str (c_name cls)))
            ''HAS_ATTRIBUTE'' ''Attribute'' ''id''
            (PyStr (filepath @ ''::'' @ py_str (c_name cls) @ ''::'' @ attr)) None])
        (c_attributes cls))
     @ rest"
  unfolding class_ops_def Let_def attribute_ops_def
  by (simp add: and_then_fst)

subsection \<open>Repeated extraction\<close>

lemma map_of_extracted:
  "distinct (map fst files) \<Longrightarrow> (p, c, h) \<in> set files \<Longrightarrow>
     map_of (extracted parse files) p =
       (case extract_symbols_from_code parse c of Inl e \<Rightarrow> None | Inr symbols \<Rightarrow> Some symbols)"
proof (induction files)
  case Nil
  then show ?case by simp
next
  case (Cons f files)
  obtain p' c' h' where f: "f = (p', c', h')" by (cases f)
  show ?case
  proof (cases "p' = p")
    case True
    then have notin: "p \<notin> fst ` set files" using Cons.prems(1) f by auto
    then have "(p', c', h') = (p, c, h)" using Cons.prems(2) f by force
    moreover have "map_of (extracted parse files) p = None"
      using notin extracted_paths_subset [of parse files] by (auto simp: map_of_eq_None_iff)
    ultimately show ?thesis
      unfolding f extracted_Cons by (cases "extract_symbols_from_code parse c") simp_all
  next
    case False
    then have "(p, c, h) \<in> set files" using Cons.prems(2) f by auto
    then have "map_of (extracted parse files) p =
       (case extract_symbols_from_code parse c of Inl e \<Rightarrow> None | Inr symbols \<Rightarrow> Some symbols)"
      using Cons by simp
    then show ?thesis
      unfolding f extracted_Cons using False
      by (cases "extract_symbols_from_code parse c'") simp_all
  qed
qed

text \<open>
  C8. Extraction is a function of the source text: within one indexing run over files
  with distinct paths, two files with the same text get the same record (the same
  functions with the same fields in the same order, the same classes, imports, aliases
  and calls), whatever was extracted before and between them, and this record is the
  one an invocation on the text on its own returns; when that invocation raises,
  neither file gets a record.
\<close>

theorem extraction_repeatable:
  assumes "distinct (map fst python_files)"
    and "(path1, code, hexsha1) \<in> set python_files"
    and "(path2, code, hexsha2) \<in> set python_files"
  shows "dict_get (code_graph_data (index_files parse python_files)) path1
           = dict_get (code_graph_data (index_files parse python_files)) path2
     \<and> dict_get (code_graph_data (index_files parse python_files)) path1
           = (case extract_symbols_from_code parse code of
                Inl e \<Rightarrow> None
              | Inr symbols \<Rightarrow> Some symbols)"
  unfolding dict_get_def index_files_data [OF assms(1)]
    map_of_extracted [OF assms(1,2)] map_of_extracted [OF assms(1,3)]
  by simp

theorem extraction_repeatable_witness:
  "distinct (map fst unsorted_files)
   \<and> (''b.py'', ''def run(): a()'', ''0b'') \<in> set unsorted_files
   \<and> (''a.py'', ''def run(): a()'', ''0a'') \<in> set unsorted_files
   \<and> dict_get (code_graph_data (index_files run_parser unsorted_files)) ''b.py''
       = dict_get (code_graph_data (index_files run_parser unsorted_files)) ''a.py''
   \<and> dict_get (code_graph_data (index_files run_parser unsorted_files)) ''b.py''
       = Some (file_symbols.truncate (traverse run_module init_state))"
proof -
  have h1: "distinct (map fst unsorted_files)" by (simp add: unsorted_files_def)
  have h2: "(''b.py'', ''def run(): a()'', ''0b'') \<in> set unsorted_files"
    by (simp add: unsorted_files_def)
  have h3: "(''a.py'', ''def run(): a()'', ''0a'') \<in> set unsorted_files"
    by (simp add: unsorted_files_def)
  note r = extraction_repeatable [OF h1 h2 h3, of run_parser, unfolded run_extract sum.case]
  show ?thesis using h1 h2 h3 r by blast
qed

subsection \<open>Further properties of the linker and the indexer\<close>

lemma nested_class_clears_slot:
  "map f_name (fs_functions (traverse nested_module init_state)) = [Some ''f'']
   \<and> lexical_names nested_module None = [Some ''A.f'']
   \<and> \<not> flat_classes nested_module"
proof -
  have "map slot_name (fst (visited_defs nested_module None)) = [Some ''f'']"
    by (simp add: nested_module_def fixture_defs slot_name_def def_name_def child_by_field_name_def
        get_node_text_safe_def get_node_text_def Let_def)
  moreover have "lexical_names nested_module None = [Some ''A.f'']"
    by (simp add: nested_module_def fixture_defs slot_name_def def_name_def child_by_field_name_def
        get_node_text_safe_def get_node_text_def py_str_def)
  moreover have "\<not> flat_classes nested_module"
    by (simp add: nested_module_def fixture_defs)
  ultimately show ?thesis unfolding traverse_names by simp
qed

lemma index_files_table_nonempty: "[] \<notin> ran (symbol_table (index_files parse python_files))"
proof
  assume "[] \<in> ran (symbol_table (index_files parse python_files))"
  then obtain n where "symbol_table (index_files parse python_files) n = Some []"
    unfolding ran_def by blast
  then show False
    unfolding index_files_table fold_add_symbols_apply
    by (simp split: list.splits)
qed

lemma populate_calls_member:
  assumes "snd (populate_graph_from_code_data graph_data symtable) = None"
    and "(filepath, symbols) \<in> set graph_data"
    and "entry \<in> set (fs_calls symbols)"
    and "op \<in> set (caller_ops symtable filepath symbols entry)"
  shows "op \<in> set (fst (populate_graph_from_code_data graph_data symtable))"
proof -
  have okf: "snd (file_ops symtable (filepath, symbols)) = None"
    using assms(1,2) unfolding populate_graph_from_code_data_def for_each_None by auto
  then have okl: "snd (for_each (class_ops symtable filepath symbols) (fs_classes symbols)) = None"
    unfolding file_ops_classes_ok .
  have "op \<in> set (fst (file_ops symtable (filepath, symbols)))"
    unfolding file_ops_eq using okl assms(3,4)
    by (auto simp: and_then_fst and_then_None)
  then show ?thesis
    unfolding populate_graph_from_code_data_def
    by (rule for_each_member [OF assms(1) [unfolded populate_graph_from_code_data_def] assms(2)])
qed

end
